theory Spec2Isabelle
  imports Complex_Main
begin

section \<open>Python strings\<close>

text \<open>
  Strings are lists of characters.  The operations below are the ones of Python's
  \<^verbatim>\<open>str\<close> that \<^verbatim>\<open>github_deploy_repo.py\<close> calls.
\<close>

abbreviation slash :: char where
  "slash \<equiv> CHR ''/''"

abbreviation newline :: char where
  "newline \<equiv> CHR 0x0A"

abbreviation backslash :: char where
  "backslash \<equiv> CHR 0x5C"

text \<open>\<^verbatim>\<open>s.startswith(p)\<close>\<close>

fun startswith :: "string \<Rightarrow> string \<Rightarrow> bool" where
  "startswith s [] = True"
| "startswith [] (p # ps) = False"
| "startswith (c # s) (p # ps) = (c = p \<and> startswith s ps)"

text \<open>\<^verbatim>\<open>s.endswith(p)\<close>\<close>

definition endswith :: "string \<Rightarrow> string \<Rightarrow> bool" where
  "endswith s p = startswith (rev s) (rev p)"

text \<open>\<^verbatim>\<open>p in s\<close>\<close>

fun contains :: "string \<Rightarrow> string \<Rightarrow> bool" where
  "contains [] p = (p = [])"
| "contains (c # s) p = (startswith (c # s) p \<or> contains s p)"

text \<open>
  \<^verbatim>\<open>s.replace(old, new)\<close>: every occurrence, left to right, without overlap.  The
  counter is the number of characters of the occurrence just replaced that are still
  to be skipped.  An empty \<^verbatim>\<open>old\<close> puts \<^verbatim>\<open>new\<close> around every character.
\<close>

fun replace_from :: "string \<Rightarrow> string \<Rightarrow> nat \<Rightarrow> string \<Rightarrow> string" where
  "replace_from old new k [] = []"
| "replace_from old new (Suc k) (c # s) = replace_from old new k s"
| "replace_from old new 0 (c # s) =
     (if startswith (c # s) old then new @ replace_from old new (length old - 1) s
      else c # replace_from old new 0 s)"

definition replace :: "string \<Rightarrow> string \<Rightarrow> string \<Rightarrow> string" where
  "replace s old new =
     (if old = [] then new @ concat (map (\<lambda>c. c # new) s)
      else replace_from old new 0 s)"

text \<open>\<^verbatim>\<open>s.split(sep)\<close> for a one-character separator\<close>

fun split_on :: "char \<Rightarrow> string \<Rightarrow> string list" where
  "split_on sep [] = [[]]"
| "split_on sep (c # s) =
     (if c = sep then [] # split_on sep s
      else (case split_on sep s of [] \<Rightarrow> [[c]] | x # xs \<Rightarrow> (c # x) # xs))"

text \<open>\<^verbatim>\<open>sep.join(xs)\<close>\<close>

fun sep_join :: "string \<Rightarrow> string list \<Rightarrow> string" where
  "sep_join sep [] = []"
| "sep_join sep [x] = x"
| "sep_join sep (x # y # ys) = x @ sep @ sep_join sep (y # ys)"

text \<open>\<^verbatim>\<open>s.lower()\<close> on ASCII\<close>

definition lower_char :: "char \<Rightarrow> char" where
  "lower_char c =
     (case map_of (zip ''ABCDEFGHIJKLMNOPQRSTUVWXYZ'' ''abcdefghijklmnopqrstuvwxyz'') c of
        Some l \<Rightarrow> l
      | None \<Rightarrow> c)"

definition lower :: "string \<Rightarrow> string" where
  "lower s = map lower_char s"

text \<open>
  \<^verbatim>\<open>s.center(width)\<close> with spaces: a string at least as wide is returned as it is;
  otherwise the left margin is \<^verbatim>\<open>marg // 2 + (marg & width & 1)\<close>.
\<close>

definition center :: "string \<Rightarrow> nat \<Rightarrow> string" where
  "center s width =
     (if width \<le> length s then s
      else let marg = width - length s;
               left = marg div 2 + (if odd marg \<and> odd width then 1 else 0)
           in replicate left CHR '' '' @ s @ replicate (marg - left) CHR '' '')"

text \<open>\<^verbatim>\<open>'%d' % n\<close>\<close>

function show_nat :: "nat \<Rightarrow> string" where
  "show_nat n =
     (if n < 10 then [''0123456789'' ! n]
      else show_nat (n div 10) @ [''0123456789'' ! (n mod 10)])"
  by pat_completeness auto
termination
  by (relation "measure id") auto

declare show_nat.simps [simp del]

definition show_int :: "int \<Rightarrow> string" where
  "show_int i = (if i < 0 then CHR ''-'' # show_nat (nat (- i)) else show_nat (nat i))"

section \<open>Paths (posixpath)\<close>

text \<open>
  The functions of \<^verbatim>\<open>os.path\<close> the program calls, as \<^verbatim>\<open>posixpath\<close> defines them.
  The current directory is a parameter.
\<close>

definition isabs :: "string \<Rightarrow> bool" where
  "isabs p = startswith p ''/''"

text \<open>\<^verbatim>\<open>os.path.join(a, b)\<close>\<close>

definition join :: "string \<Rightarrow> string \<Rightarrow> string" where
  "join a b =
     (if startswith b ''/'' then b
      else if a = [] \<or> endswith a ''/'' then a @ b
      else a @ ''/'' @ b)"

text \<open>
  The loop of \<^verbatim>\<open>normpath\<close> over the components; \<open>rooted\<close> says the path has initial
  slashes.
\<close>

fun norm_comps :: "bool \<Rightarrow> string list \<Rightarrow> string list \<Rightarrow> string list" where
  "norm_comps rooted new [] = new"
| "norm_comps rooted new (part # parts) =
     (if part = [] \<or> part = ''.'' then norm_comps rooted new parts
      else if part \<noteq> ''..'' \<or> (\<not> rooted \<and> new = []) \<or> (new \<noteq> [] \<and> last new = ''..'')
        then norm_comps rooted (new @ [part]) parts
      else if new \<noteq> [] then norm_comps rooted (butlast new) parts
      else norm_comps rooted new parts)"

definition initial_slashes :: "string \<Rightarrow> nat" where
  "initial_slashes path =
     (if startswith path ''//'' \<and> \<not> startswith path ''///'' then 2
      else if startswith path ''/'' then 1 else 0)"

definition normpath :: "string \<Rightarrow> string" where
  "normpath path =
     (if path = [] then ''.''
      else let n = initial_slashes path;
               comps = norm_comps (n \<noteq> 0) [] (split_on slash path);
               p = replicate n slash @ sep_join ''/'' comps
           in if p = [] then ''.'' else p)"

definition abspath :: "string \<Rightarrow> string \<Rightarrow> string" where
  "abspath cwd path = normpath (if isabs path then path else join cwd path)"

text \<open>\<^verbatim>\<open>os.path.split(p)\<close>: the head loses its trailing slashes unless it is all slashes.\<close>

definition path_split :: "string \<Rightarrow> string \<times> string" where
  "path_split p =
     (let tl_rev = takeWhile (\<lambda>c. c \<noteq> slash) (rev p);
          head = rev (dropWhile (\<lambda>c. c \<noteq> slash) (rev p));
          head' = (if head \<noteq> [] \<and> head \<noteq> replicate (length head) slash
                   then rev (dropWhile (\<lambda>c. c = slash) (rev head)) else head)
      in (head', rev tl_rev))"

section \<open>JSON values and errors\<close>

text \<open>
  What \<^verbatim>\<open>json.loads\<close> returns.  An object is the list of its items in insertion
  order, with distinct keys.  A float is the rational it denotes; the values that are
  not numbers (\<^verbatim>\<open>NaN\<close>, \<^verbatim>\<open>Infinity\<close>) are left out.
\<close>

datatype json =
    JNull
  | JBool bool
  | JInt int
  | JFloat rat
  | JStr string
  | JList "json list"
  | JObj "(string \<times> json) list"

text \<open>
  The exceptions the program raises or lets through.  \<open>TypeError\<close> stands for the
  \<^verbatim>\<open>TypeError\<close> or \<^verbatim>\<open>AttributeError\<close> of a string or dictionary operation applied to a
  JSON value of another type; \<open>OSError\<close> carries the path the operating system refused.
\<close>

datatype error =
    NotInside string string
  | ObjectExists
  | LoadError
  | InvalidConfig string
  | InvalidAction nat nat
  | UnsupportedAction string
  | KeyError string
  | TypeError
  | ValueError
  | RegexError
  | OSError string
  | FileExistsError string
  | CalledProcessError string
  | FetchError

text \<open>\<^verbatim>\<open>d.get(k)\<close> on an object\<close>

definition jget :: "(string \<times> json) list \<Rightarrow> string \<Rightarrow> json option" where
  "jget row k = map_of row k"

text \<open>\<^verbatim>\<open>row[k]\<close> where the program goes on to use the value as a string\<close>

definition row_str :: "(string \<times> json) list \<Rightarrow> string \<Rightarrow> error + string" where
  "row_str row k =
     (case jget row k of
        None \<Rightarrow> Inl (KeyError k)
      | Some (JStr s) \<Rightarrow> Inr s
      | Some _ \<Rightarrow> Inl TypeError)"

section \<open>Resolving file names\<close>

text \<open>
  \<^verbatim>\<open>get_substituted_path\<close>: the items of \<^verbatim>\<open>substitutions\<close> in order; a value that is
  not a string fails in \<^verbatim>\<open>path.replace\<close>, and only when its pattern occurs.
\<close>

fun substitute_items :: "string \<Rightarrow> (string \<times> json) list \<Rightarrow> error + string" where
  "substitute_items path [] = Inr path"
| "substitute_items path ((key, v) # items) =
     (let pattern = ''[['' @ key @ '']]'' in
      if contains path pattern then
        (case v of
           JStr s \<Rightarrow> substitute_items (replace path pattern s) items
         | _ \<Rightarrow> Inl TypeError)
      else substitute_items path items)"

definition get_substituted_path :: "string \<Rightarrow> json \<Rightarrow> error + string" where
  "get_substituted_path path substitutions =
     (case substitutions of
        JObj items \<Rightarrow> substitute_items path items
      | _ \<Rightarrow> Inl TypeError)"

text \<open>The tuple \<^verbatim>\<open>(absname, path, name, ext)\<close> that \<^verbatim>\<open>get_file\<close> returns.\<close>

record fileinfo =
  absname :: string
  dirname :: string
  basename :: string
  ext :: string

text \<open>\<^verbatim>\<open>get_file\<close> after the substitution: lines 185 to 193.\<close>

definition get_file_plain :: "string \<Rightarrow> string \<Rightarrow> string option \<Rightarrow> fileinfo" where
  "get_file_plain cwd name path =
     (let name1 = (case path of None \<Rightarrow> name | Some p \<Rightarrow> join p name);
          a = abspath cwd name1;
          (d, n) = path_split a;
          e = (if CHR ''.'' \<in> set n then drop 1 (dropWhile (\<lambda>c. c \<noteq> CHR ''.'') n) else [])
      in \<lparr>absname = a, dirname = d, basename = n, ext = e\<rparr>)"

definition get_file :: "string \<Rightarrow> string \<Rightarrow> string option \<Rightarrow> json \<Rightarrow> error + fileinfo" where
  "get_file cwd name path substitutions =
     (case get_substituted_path name substitutions of
        Inl e \<Rightarrow> Inl e
      | Inr new_name \<Rightarrow> Inr (get_file_plain cwd new_name path))"

text \<open>\<^verbatim>\<open>check_file(abspath, path)\<close>: the access guard.\<close>

definition check_file :: "string \<Rightarrow> string \<Rightarrow> string \<Rightarrow> error + unit" where
  "check_file cwd abspath_arg path =
     (let source_dir = absname (get_file_plain cwd path None) in
      if \<not> startswith abspath_arg source_dir then Inl (NotInside abspath_arg source_dir)
      else Inr ())"

section \<open>Regular expressions\<close>

text \<open>
  A compiled pattern of Python's \<^verbatim>\<open>re\<close>, without flags: \<open>Dot\<close> is any character but
  the newline, \<open>Bol\<close> and \<open>Eol\<close> are \<^verbatim>\<open>^\<close> and \<^verbatim>\<open>$\<close>.  The compilation of the pattern's
  text is a parameter of the environment below.
\<close>

datatype regex =
    Empty
  | Lit char
  | Dot
  | Bol
  | Eol
  | OneOf "char list"
  | NoneOf "char list"
  | Cat regex regex
  | Alt regex regex
  | Star regex

text \<open>The positions reachable from \<open>xs\<close> by repeating \<open>f\<close>, in at most \<open>n\<close> rounds.\<close>

fun closure :: "nat \<Rightarrow> (nat \<Rightarrow> nat list) \<Rightarrow> nat list \<Rightarrow> nat list" where
  "closure 0 f xs = xs"
| "closure (Suc n) f xs =
     (let new = filter (\<lambda>j. j \<notin> set xs) (concat (map f xs))
      in if new = [] then xs else closure n f (xs @ remdups new))"

text \<open>\<open>ends r s i\<close>: the positions where a match of \<open>r\<close> that starts at \<open>i\<close> in \<open>s\<close> can end.\<close>

fun ends :: "regex \<Rightarrow> string \<Rightarrow> nat \<Rightarrow> nat list" where
  "ends Empty s i = [i]"
| "ends (Lit c) s i = (if i < length s \<and> s ! i = c then [Suc i] else [])"
| "ends Dot s i = (if i < length s \<and> s ! i \<noteq> newline then [Suc i] else [])"
| "ends Bol s i = (if i = 0 then [i] else [])"
| "ends Eol s i =
     (if i = length s \<or> (Suc i = length s \<and> s ! i = newline) then [i] else [])"
| "ends (OneOf cs) s i = (if i < length s \<and> s ! i \<in> set cs then [Suc i] else [])"
| "ends (NoneOf cs) s i = (if i < length s \<and> s ! i \<notin> set cs then [Suc i] else [])"
| "ends (Cat a b) s i = concat (map (\<lambda>j. ends b s j) (ends a s i))"
| "ends (Alt a b) s i = ends a s i @ ends b s i"
| "ends (Star a) s i = closure (Suc (length s)) (\<lambda>j. ends a s j) [i]"

text \<open>\<^verbatim>\<open>re.match(r, s) is not None\<close>: a match that starts at the start of \<open>s\<close>.\<close>

definition re_match :: "regex \<Rightarrow> string \<Rightarrow> bool" where
  "re_match r s = (ends r s 0 \<noteq> [])"

section \<open>The filesystem\<close>

text \<open>
  The filesystem is the list of its nodes under their absolute, normalised paths, in
  directory order.  A symbolic link is followed when it is the last component of a path
  (links among the leading components are not modelled), and every permission is
  granted: an operation fails only for the shape of the tree.  The content of a file is
  its text, which is taken to decode.
\<close>

datatype node = File string | Dir | Link string

type_synonym filesystem = "(string \<times> node) list"

text \<open>The path a name leads to once the links at its end are followed; 40 is the kernel's bound.\<close>

fun follow :: "nat \<Rightarrow> filesystem \<Rightarrow> string \<Rightarrow> string option" where
  "follow 0 fs p = None"
| "follow (Suc k) fs p =
     (case map_of fs p of
        Some (Link t) \<Rightarrow> follow k fs (normpath (join (fst (path_split p)) t))
      | _ \<Rightarrow> Some p)"

definition stat :: "filesystem \<Rightarrow> string \<Rightarrow> node option" where
  "stat fs p = (case follow 40 fs p of None \<Rightarrow> None | Some q \<Rightarrow> map_of fs q)"

text \<open>\<^verbatim>\<open>os.path.exists\<close>, \<^verbatim>\<open>isfile\<close>, \<^verbatim>\<open>isdir\<close> follow links; \<^verbatim>\<open>islink\<close> does not.\<close>

definition path_exists :: "filesystem \<Rightarrow> string \<Rightarrow> bool" where
  "path_exists fs p = (case stat fs p of None \<Rightarrow> False | Some _ \<Rightarrow> True)"

definition path_isfile :: "filesystem \<Rightarrow> string \<Rightarrow> bool" where
  "path_isfile fs p = (case stat fs p of Some (File _) \<Rightarrow> True | _ \<Rightarrow> False)"

definition path_isdir :: "filesystem \<Rightarrow> string \<Rightarrow> bool" where
  "path_isdir fs p = (case stat fs p of Some Dir \<Rightarrow> True | _ \<Rightarrow> False)"

definition path_islink :: "filesystem \<Rightarrow> string \<Rightarrow> bool" where
  "path_islink fs p = (case map_of fs p of Some (Link _) \<Rightarrow> True | _ \<Rightarrow> False)"

text \<open>\<^verbatim>\<open>open(p, 'rb').read()\<close>\<close>

definition read_file :: "filesystem \<Rightarrow> string \<Rightarrow> error + string" where
  "read_file fs p = (case stat fs p of Some (File c) \<Rightarrow> Inr c | _ \<Rightarrow> Inl (OSError p))"

text \<open>Storing a node under a path: in place when the path is there, last otherwise.\<close>

fun store :: "string \<Rightarrow> node \<Rightarrow> filesystem \<Rightarrow> filesystem" where
  "store p n [] = [(p, n)]"
| "store p n ((q, m) # fs) = (if q = p then (p, n) # fs else (q, m) # store p n fs)"

text \<open>
  \<^verbatim>\<open>open(p, 'wb')\<close>, the writes and the close: the file is created or truncated where
  its directory exists.
\<close>

definition write_file :: "filesystem \<Rightarrow> string \<Rightarrow> string \<Rightarrow> error + filesystem" where
  "write_file fs p c =
     (case follow 40 fs p of
        None \<Rightarrow> Inl (OSError p)
      | Some q \<Rightarrow>
          (case map_of fs q of
             Some Dir \<Rightarrow> Inl (OSError p)
           | _ \<Rightarrow>
               if path_isdir fs (fst (path_split q)) then Inr (store q (File c) fs)
               else Inl (OSError p)))"

text \<open>\<^verbatim>\<open>os.mkdir\<close>\<close>

definition os_mkdir :: "filesystem \<Rightarrow> string \<Rightarrow> error + filesystem" where
  "os_mkdir fs p =
     (if map_of fs p \<noteq> None then Inl (FileExistsError p)
      else if path_isdir fs (fst (path_split p)) then Inr (store p Dir fs)
      else Inl (OSError p))"

text \<open>
  \<^verbatim>\<open>os.makedirs(name, exist_ok=...)\<close>.  The recursion is on the head of the path, which
  gets shorter; the counter bounds it by the length of the name.
\<close>

fun makedirs_upto :: "nat \<Rightarrow> filesystem \<Rightarrow> string \<Rightarrow> bool \<Rightarrow> error + filesystem" where
  "makedirs_upto 0 fs name exist_ok = Inl (OSError name)"
| "makedirs_upto (Suc k) fs name exist_ok =
     (let (head0, tail0) = path_split name;
          (head, tail) = (if tail0 = [] then path_split head0 else (head0, tail0));
          descend = (head \<noteq> [] \<and> tail \<noteq> [] \<and> \<not> path_exists fs head);
          above = (if descend
                   then (case makedirs_upto k fs head exist_ok of
                           Inl (FileExistsError x) \<Rightarrow> Inr fs
                         | r \<Rightarrow> r)
                   else Inr fs)
      in case above of
           Inl e \<Rightarrow> Inl e
         | Inr fs1 \<Rightarrow>
             if descend \<and> tail = ''.'' then Inr fs1
             else (case os_mkdir fs1 name of
                     Inr fs2 \<Rightarrow> Inr fs2
                   | Inl e \<Rightarrow> if \<not> exist_ok \<or> \<not> path_isdir fs1 name then Inl e else Inr fs1))"

definition os_makedirs :: "filesystem \<Rightarrow> string \<Rightarrow> bool \<Rightarrow> error + filesystem" where
  "os_makedirs fs name exist_ok = makedirs_upto (Suc (length name)) fs name exist_ok"

text \<open>\<^verbatim>\<open>shutil.copy(src, dst)\<close>: into \<open>dst\<close> when it is a directory; never a file onto itself.\<close>

definition shutil_copy :: "filesystem \<Rightarrow> string \<Rightarrow> string \<Rightarrow> error + filesystem" where
  "shutil_copy fs src dst =
     (let dst1 = (if path_isdir fs dst then join dst (snd (path_split src)) else dst);
          same = (case (follow 40 fs src, follow 40 fs dst1) of
                    (Some a, Some b) \<Rightarrow> a = b \<and> map_of fs a \<noteq> None
                  | _ \<Rightarrow> False)
      in if same then Inl (OSError src)
         else (case read_file fs src of
                 Inl e \<Rightarrow> Inl e
               | Inr c \<Rightarrow> write_file fs dst1 c))"

text \<open>\<^verbatim>\<open>os.remove\<close>\<close>

definition os_remove :: "filesystem \<Rightarrow> string \<Rightarrow> error + filesystem" where
  "os_remove fs p =
     (case map_of fs p of
        None \<Rightarrow> Inl (OSError p)
      | Some Dir \<Rightarrow> Inl (OSError p)
      | Some _ \<Rightarrow> Inr (filter (\<lambda>(q, n). q \<noteq> p) fs))"

text \<open>\<^verbatim>\<open>os.symlink(src, dst)\<close>: \<open>dst\<close> must not be there, as a link or otherwise.\<close>

definition os_symlink :: "filesystem \<Rightarrow> string \<Rightarrow> string \<Rightarrow> error + filesystem" where
  "os_symlink fs src dst =
     (if map_of fs dst \<noteq> None then Inl (FileExistsError dst)
      else if path_isdir fs (fst (path_split dst)) then Inr (store dst (Link src) fs)
      else Inl (OSError dst))"

text \<open>The name of \<open>p\<close> as an immediate child of the directory \<open>d\<close>.\<close>

definition child_name :: "string \<Rightarrow> string \<Rightarrow> string option" where
  "child_name d p =
     (let pre = (if endswith d ''/'' then d else d @ ''/'');
          rest = drop (length pre) p
      in if startswith p pre \<and> rest \<noteq> [] \<and> slash \<notin> set rest then Some rest else None)"

text \<open>\<^verbatim>\<open>os.listdir\<close> as \<^verbatim>\<open>glob\<close> calls it: no names where the directory cannot be read.\<close>

definition os_listdir :: "filesystem \<Rightarrow> string \<Rightarrow> string list" where
  "os_listdir fs d =
     (case follow 40 fs d of
        None \<Rightarrow> []
      | Some q \<Rightarrow>
          (case map_of fs q of
             Some Dir \<Rightarrow> List.map_filter (\<lambda>(p, n). child_name q p) fs
           | _ \<Rightarrow> []))"

text \<open>Whether \<open>p\<close> is \<open>d\<close> or lies below it.\<close>

definition below :: "string \<Rightarrow> string \<Rightarrow> bool" where
  "below d p = (p = d \<or> startswith p (if endswith d ''/'' then d else d @ ''/''))"

section \<open>The environment\<close>

text \<open>
  What the program takes from outside: the current directory, the parsers of the
  standard library, the shell and the clock, and the collaborators of the deployment.
  \<^item> \<open>json_loads\<close>: \<^verbatim>\<open>json.loads\<close>, \<open>None\<close> where it raises;
  \<^item> \<open>re_compile\<close>: the compilation of a pattern by \<^verbatim>\<open>re\<close>, \<open>None\<close> where it raises;
  \<^item> \<open>glob_magic\<close>: the directories \<^verbatim>\<open>glob\<close> finds for a directory name that itself has
    wildcard characters;
  \<^item> \<open>shell\<close>: a command line run by \<^verbatim>\<open>subprocess\<close>: the filesystem it leaves, and its
    output when it exits with status zero;
  \<^item> \<open>rmtree_fault\<close>: \<open>Some fs'\<close> when the removal of a tree is refused part way and
    leaves \<open>fs'\<close>;
  \<^item> \<open>time_now\<close>, \<open>isoformat\<close>: \<^verbatim>\<open>round(time.time())\<close> and the local date and time of a
    timestamp;
  \<^item> \<open>fetch\<close>: lines 463 to 497 of \<^verbatim>\<open>deploy_repo\<close>, the hash or clone and the extraction
    into the workspace: the filesystem they leave, the commit as far as it was
    assigned, and the exception if one was raised;
  \<^item> \<open>sql_now\<close>: \<^verbatim>\<open>now()\<close> of the database.
\<close>

record env =
  getcwd :: string
  json_loads :: "string \<Rightarrow> json option"
  re_compile :: "string \<Rightarrow> regex option"
  glob_magic :: "filesystem \<Rightarrow> string \<Rightarrow> string list"
  shell :: "string \<Rightarrow> filesystem \<Rightarrow> filesystem \<times> string option"
  rmtree_fault :: "string \<Rightarrow> filesystem \<Rightarrow> filesystem option"
  time_now :: int
  isoformat :: "int \<Rightarrow> string"
  fetch :: "string \<Rightarrow> string \<Rightarrow> filesystem \<Rightarrow> filesystem \<times> string option \<times> error option"
  sql_now :: int

text \<open>Sequencing: the rest runs on the state a step leaves, unless the step raised.\<close>

definition on_ok ::
  "'s \<times> (error + 'a) \<Rightarrow> ('s \<Rightarrow> 'a \<Rightarrow> 's \<times> (error + 'b)) \<Rightarrow> 's \<times> (error + 'b)" where
  "on_ok r k = (case r of (s, Inl e) \<Rightarrow> (s, Inl e) | (s, Inr x) \<Rightarrow> k s x)"

text \<open>A step that changes the filesystem or raises and leaves it as it was.\<close>

definition fs_step :: "filesystem \<Rightarrow> error + filesystem \<Rightarrow> filesystem \<times> (error + unit)" where
  "fs_step fs r = (case r of Inl e \<Rightarrow> (fs, Inl e) | Inr fs1 \<Rightarrow> (fs1, Inr ()))"

text \<open>\<^verbatim>\<open>subprocess.check_call(cmd, shell=True)\<close>\<close>

definition check_call :: "env \<Rightarrow> filesystem \<Rightarrow> string \<Rightarrow> filesystem \<times> (error + unit)" where
  "check_call E fs cmd =
     (case shell E cmd fs of
        (fs1, None) \<Rightarrow> (fs1, Inl (CalledProcessError cmd))
      | (fs1, Some out) \<Rightarrow> (fs1, Inr ()))"

text \<open>\<^verbatim>\<open>shutil.rmtree\<close>: only a directory, and not through a link.\<close>

definition shutil_rmtree :: "env \<Rightarrow> filesystem \<Rightarrow> string \<Rightarrow> filesystem \<times> (error + unit)" where
  "shutil_rmtree E fs d =
     (case map_of fs d of
        Some Dir \<Rightarrow>
          (case rmtree_fault E d fs of
             Some fs1 \<Rightarrow> (fs1, Inl (OSError d))
           | None \<Rightarrow> (filter (\<lambda>(p, n). \<not> below d p) fs, Inr ()))
      | _ \<Rightarrow> (fs, Inl (OSError d)))"

text \<open>
  \<^verbatim>\<open>glob.glob(os.path.join(d, '*'))\<close>: the names of each directory that do not begin
  with a dot, joined to it.
\<close>

definition has_magic :: "string \<Rightarrow> bool" where
  "has_magic s = list_ex (\<lambda>c. c \<in> set ''*?['') s"

definition ishidden :: "string \<Rightarrow> bool" where
  "ishidden n = startswith n ''.''"

definition glob_star :: "env \<Rightarrow> filesystem \<Rightarrow> string \<Rightarrow> string list" where
  "glob_star E fs d =
     (let pathname = join d ''*'';
          dir0 = fst (path_split pathname);
          dirs = (if has_magic dir0 then glob_magic E fs dir0 else [dir0])
      in concat (map (\<lambda>dir. map (join dir) (filter (\<lambda>n. \<not> ishidden n) (os_listdir fs dir)))
           dirs))"

section \<open>Header comments and keywords\<close>

definition HEADER_WIDTH :: nat where
  "HEADER_WIDTH = 55"

definition HEADER_LINES :: "string list" where
  "HEADER_LINES =
     ['' ____   ___    _   _  ___ _____   _____ ____ ___ _____ '',
      ''|  _ '' @ [backslash] @ '' / _ '' @ [backslash] @ ''  | '' @ [backslash]
        @ '' | |/ _ '' @ [backslash] @ ''_   _| | ____|  _ '' @ [backslash] @ ''_ _|_   _|'',
      ''| | | | | | | |  '' @ [backslash] @ ''| | | | || |   |  _| | | | | |  | |  '',
      ''| |_| | |_| | | |'' @ [backslash] @ ''  | |_| || |   | |___| |_| | |  | |  '',
      ''|____/ '' @ [backslash] @ ''___/  |_| '' @ [backslash] @ ''_|'' @ [backslash]
        @ ''___/ |_|   |_____|____/___| |_|  '']"

text \<open>\<^verbatim>\<open>'%s' % commit\<close>, where the commit may be \<^verbatim>\<open>None\<close>\<close>

definition show_commit :: "string option \<Rightarrow> string" where
  "show_commit commit = (case commit of None \<Rightarrow> ''None'' | Some c \<Rightarrow> c)"

text \<open>The six lines under the banner, before they are centred (lines 222 to 231).\<close>

definition header_text :: "env \<Rightarrow> string \<Rightarrow> string option \<Rightarrow> string list" where
  "header_text E repo_link commit =
     (let t = time_now E; dt = isoformat E t
      in [[],
          ''Automatically generated from sources at:'',
          repo_link,
          [],
          ''Commit hash: '' @ show_commit commit,
          ''Deployed at: '' @ dt @ '' ('' @ show_int t @ '')''])"

text \<open>
  Lines 233 to 245: the header goes to a new file beside the source, then the source's
  content.  When the source cannot be read the new file is left with the header alone.
\<close>

definition write_header ::
  "env \<Rightarrow> filesystem \<Rightarrow> string \<Rightarrow> string option \<Rightarrow> fileinfo \<Rightarrow>
   string \<Rightarrow> string \<Rightarrow> string \<Rightarrow> string \<Rightarrow> filesystem \<times> (error + fileinfo)" where
  "write_header E fs repo_link commit src pre_block post_block pre_line post_line =
     (let tmp = get_file_plain (getcwd E) (absname src @ ''__header'') None;
          head = pre_block
            @ concat (map (\<lambda>line. pre_line @ line @ post_line @ [newline])
                (HEADER_LINES
                 @ map (\<lambda>line. center line HEADER_WIDTH) (header_text E repo_link commit)))
            @ post_block
      in on_ok (fs_step fs (write_file fs (absname tmp) head)) (\<lambda>fs1 u.
           case read_file fs1 (absname src) of
             Inl e \<Rightarrow> (fs1, Inl e)
           | Inr c \<Rightarrow>
               on_ok (fs_step fs1 (write_file fs1 (absname tmp) (head @ c))) (\<lambda>fs2 u.
                 (fs2, Inr tmp))))"

definition blanks :: string where
  "blanks = [newline, newline, newline]"

text \<open>\<^verbatim>\<open>add_header\<close>.  The last test is \<^verbatim>\<open>ext in ('php')\<close>, a test on a string.\<close>

definition add_header ::
  "env \<Rightarrow> filesystem \<Rightarrow> string \<Rightarrow> string option \<Rightarrow> fileinfo \<Rightarrow> string \<Rightarrow>
   filesystem \<times> (error + fileinfo)" where
  "add_header E fs repo_link commit src dst_ext =
     (let e = lower dst_ext in
      if e \<in> set [''html'', ''xml''] then
        write_header E fs repo_link commit src
          (''<!--'' @ [newline]) (''-->'' @ [newline] @ blanks) [] []
      else if e \<in> set [''js'', ''min.js'', ''css'', ''c'', ''cpp'', ''h'', ''hpp'', ''java''] then
        write_header E fs repo_link commit src
          (''/*'' @ [newline]) (''*/'' @ [newline] @ blanks) [] []
      else if e \<in> set [''py'', ''r'', ''coffee'', ''htaccess''] then
        write_header E fs repo_link commit src [] blanks ''# '' '' #''
      else if contains ''php'' e then
        write_header E fs repo_link commit src
          (''<?php /*'' @ [newline]) (''*/'' @ [newline] @ blanks @ ''?>'') [] []
      else (fs, Inr src))"

text \<open>
  What \<^verbatim>\<open>pairs.extend(v)\<close> adds for a JSON value: the items of a list, the keys of an
  object, the characters of a string.
\<close>

definition extend_items :: "json \<Rightarrow> error + json list" where
  "extend_items v =
     (case v of
        JList xs \<Rightarrow> Inr xs
      | JObj items \<Rightarrow> Inr (map (\<lambda>(k, x). JStr k) items)
      | JStr cs \<Rightarrow> Inr (map (\<lambda>c. JStr [c]) cs)
      | _ \<Rightarrow> Inl TypeError)"

text \<open>The lines of a text file as \<^verbatim>\<open>readlines\<close> gives them, each with its newline.\<close>

fun universal_newlines :: "string \<Rightarrow> string" where
  "universal_newlines [] = []"
| "universal_newlines [c] = (if c = CHR 0x0D then [newline] else [c])"
| "universal_newlines (c # d # s) =
     (if c = CHR 0x0D \<and> d = newline then newline # universal_newlines s
      else if c = CHR 0x0D then newline # universal_newlines (d # s)
      else c # universal_newlines (d # s))"

fun lines_from :: "string \<Rightarrow> string \<Rightarrow> string list" where
  "lines_from cur [] = (if cur = [] then [] else [rev cur])"
| "lines_from cur (c # s) =
     (if c = newline then rev (c # cur) # lines_from [] s else lines_from (c # cur) s)"

definition readlines :: "string \<Rightarrow> string list" where
  "readlines text = lines_from [] (universal_newlines text)"

text \<open>Lines 251 to 253: the pairs of every template, in order.\<close>

fun load_pairs :: "env \<Rightarrow> filesystem \<Rightarrow> fileinfo list \<Rightarrow> error + json list" where
  "load_pairs E fs [] = Inr []"
| "load_pairs E fs (t # ts) =
     (case read_file fs (absname t) of
        Inl e \<Rightarrow> Inl e
      | Inr text \<Rightarrow>
          (case json_loads E (universal_newlines text) of
             None \<Rightarrow> Inl ValueError
           | Some v \<Rightarrow>
               (case extend_items v of
                  Inl e \<Rightarrow> Inl e
                | Inr xs \<Rightarrow>
                    (case load_pairs E fs ts of
                       Inl e \<Rightarrow> Inl e
                     | Inr ys \<Rightarrow> Inr (xs @ ys)))))"

text \<open>
  \<^verbatim>\<open>(k, v) = p\<close> for one item of the pairs: a list, a string or an object of two
  unpacks; \<^verbatim>\<open>line.replace(k, v)\<close> then wants two strings.
\<close>

definition unpack_pair :: "json \<Rightarrow> error + string \<times> string" where
  "unpack_pair p =
     (case p of
        JList xs \<Rightarrow>
          (case xs of
             [JStr k, JStr v] \<Rightarrow> Inr (k, v)
           | [x, y] \<Rightarrow> Inl TypeError
           | _ \<Rightarrow> Inl ValueError)
      | JStr cs \<Rightarrow> (case cs of [a, b] \<Rightarrow> Inr ([a], [b]) | _ \<Rightarrow> Inl ValueError)
      | JObj items \<Rightarrow>
          (case items of [(k, x), (v, y)] \<Rightarrow> Inr (k, v) | _ \<Rightarrow> Inl ValueError)
      | _ \<Rightarrow> Inl TypeError)"

text \<open>\<^verbatim>\<open>for (k, v) in pairs: line = line.replace(k, v)\<close> on one line.\<close>

fun replace_pairs :: "string \<Rightarrow> json list \<Rightarrow> error + string" where
  "replace_pairs line [] = Inr line"
| "replace_pairs line (p # ps) =
     (case unpack_pair p of
        Inl e \<Rightarrow> Inl e
      | Inr (k, v) \<Rightarrow> replace_pairs (replace line k v) ps)"

text \<open>The loop of lines 260 to 263: the lines written before one raises.\<close>

fun replace_lines :: "json list \<Rightarrow> string list \<Rightarrow> string \<times> error option" where
  "replace_lines pairs [] = ([], None)"
| "replace_lines pairs (line # rest) =
     (case replace_pairs line pairs of
        Inl e \<Rightarrow> ([], Some e)
      | Inr l \<Rightarrow> (case replace_lines pairs rest of (out, r) \<Rightarrow> (l @ out, r)))"

definition replace_keywords ::
  "env \<Rightarrow> filesystem \<Rightarrow> fileinfo \<Rightarrow> fileinfo list \<Rightarrow> filesystem \<times> (error + fileinfo)" where
  "replace_keywords E fs src templates =
     (case load_pairs E fs templates of
        Inl e \<Rightarrow> (fs, Inl e)
      | Inr pairs \<Rightarrow>
          (let tmp = get_file_plain (getcwd E) (absname src @ ''__valued'') None
           in on_ok (fs_step fs (write_file fs (absname tmp) [])) (\<lambda>fs1 u.
                case read_file fs1 (absname src) of
                  Inl e \<Rightarrow> (fs1, Inl e)
                | Inr text \<Rightarrow>
                    (case replace_lines pairs (readlines text) of (out, r) \<Rightarrow>
                       on_ok (fs_step fs1 (write_file fs1 (absname tmp) out)) (\<lambda>fs2 u.
                         case r of
                           Some e \<Rightarrow> (fs2, Inl e)
                         | None \<Rightarrow> (fs2, Inr tmp))))))"

section \<open>The actions\<close>

text \<open>\<^verbatim>\<open>[get_file(t, path) for t in templates]\<close>\<close>

fun template_files :: "string \<Rightarrow> string \<Rightarrow> json list \<Rightarrow> error + fileinfo list" where
  "template_files wd path [] = Inr []"
| "template_files wd path (t # ts) =
     (case t of
        JStr n \<Rightarrow>
          (case template_files wd path ts of
             Inl e \<Rightarrow> Inl e
           | Inr fs \<Rightarrow> Inr (get_file_plain wd n (Some path) # fs))
      | _ \<Rightarrow> Inl TypeError)"

definition quoted :: "string \<Rightarrow> string" where
  "quoted s = [CHR 0x27] @ s @ [CHR 0x27]"

text \<open>Lines 278 to 282 of \<^verbatim>\<open>copymove_single\<close>: the keywords, when the row asks for them.\<close>

definition apply_keywords ::
  "env \<Rightarrow> filesystem \<Rightarrow> string \<Rightarrow> (string \<times> json) list \<Rightarrow> fileinfo \<Rightarrow>
   filesystem \<times> (error + fileinfo)" where
  "apply_keywords E fs path row src =
     (case (case jget row ''replace-keywords'' of
              Some (JStr t) \<Rightarrow> Some [JStr t]
            | Some (JList ts) \<Rightarrow> Some ts
            | _ \<Rightarrow> None) of
        None \<Rightarrow> (fs, Inr src)
      | Some ts \<Rightarrow>
          (case template_files (getcwd E) path ts of
             Inl e \<Rightarrow> (fs, Inl e)
           | Inr templates \<Rightarrow> replace_keywords E fs src templates))"

text \<open>Lines 284 to 300: the copy, through the staging area for a destination of the web root.\<close>

definition place_file ::
  "env \<Rightarrow> filesystem \<Rightarrow> fileinfo \<Rightarrow> fileinfo \<Rightarrow> filesystem \<times> (error + unit)" where
  "place_file E fs src dst =
     (if startswith (absname dst) ''/var/www/html/'' then
        (let tmp = get_file_plain (getcwd E) (basename src @ ''__tmp'') (Some ''/common/'')
         in on_ok (fs_step fs (shutil_copy fs (absname src) (absname tmp))) (\<lambda>fs1 u.
            on_ok (check_call E fs1
                     (''sudo -u webadmin -s mkdir -p '' @ quoted (dirname dst))) (\<lambda>fs2 u.
              check_call E fs2
                (''sudo -u webadmin -s mv -fv '' @ quoted (absname tmp) @ '' ''
                 @ quoted (absname dst)))))
      else
        on_ok (fs_step fs (os_makedirs fs (dirname dst) True)) (\<lambda>fs1 u.
          fs_step fs1 (shutil_copy fs1 (absname src) (absname dst))))"

text \<open>\<^verbatim>\<open>copymove_single\<close>\<close>

definition copymove_single ::
  "env \<Rightarrow> filesystem \<Rightarrow> string \<Rightarrow> string option \<Rightarrow> string \<Rightarrow> (string \<times> json) list \<Rightarrow>
   fileinfo \<Rightarrow> fileinfo \<Rightarrow> bool \<Rightarrow> filesystem \<times> (error + unit)" where
  "copymove_single E fs repo_link commit path row src dst is_move =
     on_ok (fs, check_file (getcwd E) (absname src) path) (\<lambda>fs0 u.
     on_ok (if jget row ''add-header-comment'' = Some (JBool True)
            then add_header E fs0 repo_link commit src (ext dst)
            else (fs0, Inr src)) (\<lambda>fs1 src1.
     on_ok (apply_keywords E fs1 path row src1) (\<lambda>fs2 src2.
     on_ok (place_file E fs2 src2 dst) (\<lambda>fs3 u.
     if is_move then fs_step fs3 (os_remove fs3 (absname src2)) else (fs3, Inr ())))))"

text \<open>
  The loop of lines 313 to 318 over the names \<^verbatim>\<open>glob\<close> returned: \<^verbatim>\<open>re.match\<close> raises for a
  pattern that is not a string or does not compile, at the first name.
\<close>

fun select_matches ::
  "env \<Rightarrow> json \<Rightarrow> string \<Rightarrow> string list \<Rightarrow> error + (fileinfo \<times> fileinfo) list" where
  "select_matches E pat dst0 [] = Inr []"
| "select_matches E pat dst0 (name # names) =
     (let src2 = get_file_plain (getcwd E) name None in
      case pat of
        JStr p \<Rightarrow>
          (case re_compile E p of
             None \<Rightarrow> Inl RegexError
           | Some r \<Rightarrow>
               (case select_matches E pat dst0 names of
                  Inl e \<Rightarrow> Inl e
                | Inr rest \<Rightarrow>
                    if re_match r (basename src2)
                    then Inr ((src2, get_file_plain (getcwd E) (join dst0 (basename src2)) None)
                              # rest)
                    else Inr rest))
      | _ \<Rightarrow> Inl TypeError)"

text \<open>The loop of lines 323 and 324: it stops at the first file that raises.\<close>

fun copymove_each ::
  "env \<Rightarrow> filesystem \<Rightarrow> string \<Rightarrow> string option \<Rightarrow> string \<Rightarrow> (string \<times> json) list \<Rightarrow>
   bool \<Rightarrow> (fileinfo \<times> fileinfo) list \<Rightarrow> filesystem \<times> (error + unit)" where
  "copymove_each E fs repo_link commit path row is_move [] = (fs, Inr ())"
| "copymove_each E fs repo_link commit path row is_move ((src, dst) # rest) =
     on_ok (copymove_single E fs repo_link commit path row src dst is_move) (\<lambda>fs1 u.
       copymove_each E fs1 repo_link commit path row is_move rest)"

text \<open>Lines 308 to 320 of \<^verbatim>\<open>copymove\<close>: the files the action applies to.\<close>

definition copymove_targets ::
  "env \<Rightarrow> filesystem \<Rightarrow> string \<Rightarrow> (string \<times> json) list \<Rightarrow> json \<Rightarrow>
   error + (fileinfo \<times> fileinfo) list" where
  "copymove_targets E fs path row substitutions =
     (case row_str row ''src'' of Inl e \<Rightarrow> Inl e | Inr s \<Rightarrow>
      case get_file (getcwd E) s (Some path) substitutions of Inl e \<Rightarrow> Inl e | Inr src \<Rightarrow>
      case row_str row ''dst'' of Inl e \<Rightarrow> Inl e | Inr d \<Rightarrow>
      case get_file (getcwd E) d (Some path) substitutions of Inl e \<Rightarrow> Inl e | Inr dst \<Rightarrow>
      case jget row ''match'' of
        Some pat \<Rightarrow> select_matches E pat (absname dst) (glob_star E fs (absname src))
      | None \<Rightarrow> Inr [(src, dst)])"

text \<open>The \<^verbatim>\<open>type\<close> of a row, which \<^verbatim>\<open>execute\<close> has checked to be a string, in lower case.\<close>

definition row_action :: "(string \<times> json) list \<Rightarrow> string" where
  "row_action row = (case jget row ''type'' of Some (JStr t) \<Rightarrow> lower t | _ \<Rightarrow> [])"

definition copymove ::
  "env \<Rightarrow> filesystem \<Rightarrow> string \<Rightarrow> string option \<Rightarrow> string \<Rightarrow> (string \<times> json) list \<Rightarrow>
   json \<Rightarrow> filesystem \<times> (error + unit)" where
  "copymove E fs repo_link commit path row substitutions =
     (case copymove_targets E fs path row substitutions of
        Inl e \<Rightarrow> (fs, Inl e)
      | Inr targets \<Rightarrow>
          copymove_each E fs repo_link commit path row (row_action row = ''move'') targets)"

text \<open>
  The destination \<^verbatim>\<open>compile_coffee\<close> derives when the row names none: the source with
  its extension replaced by \<^verbatim>\<open>js\<close>.
\<close>

definition coffee_default_dst :: "string \<Rightarrow> fileinfo \<Rightarrow> fileinfo" where
  "coffee_default_dst wd src =
     get_file_plain wd
       (if ext src \<noteq> []
        then take (length (basename src) - length (ext src)) (basename src) @ ''js''
        else basename src @ ''.js'')
       (Some (dirname src))"

text \<open>\<^verbatim>\<open>get_file(row[k], path, substitutions)\<close>\<close>

definition row_file ::
  "env \<Rightarrow> string \<Rightarrow> (string \<times> json) list \<Rightarrow> string \<Rightarrow> json \<Rightarrow> error + fileinfo" where
  "row_file E path row k substitutions =
     (case row_str row k of
        Inl e \<Rightarrow> Inl e
      | Inr s \<Rightarrow> get_file (getcwd E) s (Some path) substitutions)"

definition compile_coffee ::
  "env \<Rightarrow> filesystem \<Rightarrow> string \<Rightarrow> string option \<Rightarrow> string \<Rightarrow> (string \<times> json) list \<Rightarrow>
   json \<Rightarrow> filesystem \<times> (error + unit)" where
  "compile_coffee E fs repo_link commit path row substitutions =
     on_ok (fs, row_file E path row ''src'' substitutions) (\<lambda>fs0 src.
     on_ok (fs0, case jget row ''dst'' of
                   Some x \<Rightarrow> row_file E path row ''dst'' substitutions
                 | None \<Rightarrow> Inr (coffee_default_dst (getcwd E) src)) (\<lambda>fs1 dst.
     on_ok (fs1, check_file (getcwd E) (absname src) path) (\<lambda>fs2 u.
       check_call E fs2
         (''coffee -c -p '' @ quoted (absname src) @ '' > '' @ quoted (absname dst)))))"

definition minimize_js ::
  "env \<Rightarrow> filesystem \<Rightarrow> string \<Rightarrow> string option \<Rightarrow> string \<Rightarrow> (string \<times> json) list \<Rightarrow>
   json \<Rightarrow> filesystem \<times> (error + unit)" where
  "minimize_js E fs repo_link commit path row substitutions =
     on_ok (fs, row_file E path row ''src'' substitutions) (\<lambda>fs0 src.
     on_ok (fs0, case jget row ''dst'' of
                   Some x \<Rightarrow> row_file E path row ''dst'' substitutions
                 | None \<Rightarrow> Inr src) (\<lambda>fs1 dst.
     on_ok (fs1, check_file (getcwd E) (absname src) path) (\<lambda>fs2 u.
       check_call E fs2
         (''uglifyjs '' @ quoted (absname src) @ '' -c -m -o '' @ quoted (absname dst)))))"

text \<open>
  \<^verbatim>\<open>get_file(row.get('name', dflt))[2]\<close> and then the file of that name in the shared
  directory \<^verbatim>\<open>exports/\<close>.
\<close>

definition shared_file ::
  "env \<Rightarrow> (string \<times> json) list \<Rightarrow> string \<Rightarrow> json \<Rightarrow> error + fileinfo" where
  "shared_file E row dflt substitutions =
     (case (case jget row ''name'' of
              None \<Rightarrow> Inr dflt
            | Some (JStr n) \<Rightarrow> Inr n
            | Some _ \<Rightarrow> Inl TypeError) of
        Inl e \<Rightarrow> Inl e
      | Inr n \<Rightarrow>
          get_file (getcwd E) (basename (get_file_plain (getcwd E) n None))
            (Some ''exports/'') substitutions)"

definition action_export ::
  "env \<Rightarrow> filesystem \<Rightarrow> string \<Rightarrow> string option \<Rightarrow> string \<Rightarrow> (string \<times> json) list \<Rightarrow>
   json \<Rightarrow> filesystem \<times> (error + unit)" where
  "action_export E fs repo_link commit path row substitutions =
     on_ok (fs, row_file E path row ''src'' substitutions) (\<lambda>fs0 src.
     on_ok (fs0, shared_file E row (basename src) substitutions) (\<lambda>fs1 dst.
       copymove_single E fs1 repo_link commit path row src dst False))"

definition action_import ::
  "env \<Rightarrow> filesystem \<Rightarrow> string \<Rightarrow> string option \<Rightarrow> string \<Rightarrow> (string \<times> json) list \<Rightarrow>
   json \<Rightarrow> filesystem \<times> (error + unit)" where
  "action_import E fs repo_link commit path row substitutions =
     on_ok (fs, row_file E path row ''dst'' substitutions) (\<lambda>fs0 dst.
     on_ok (fs0, shared_file E row (basename dst) substitutions) (\<lambda>fs1 src.
     on_ok (fs_step fs1 (os_makedirs fs1 (dirname dst) True)) (\<lambda>fs2 u.
       if \<not> path_exists fs2 (absname dst) then
         fs_step fs2 (os_symlink fs2 (absname src) (absname dst))
       else if path_islink fs2 (absname dst) then (fs2, Inr ())
       else (fs2, Inl ObjectExists))))"

section \<open>The instruction document\<close>

definition typestr :: string where
  "typestr = ''delphi deploy config''"

definition v_min :: int where
  "v_min = 1"

definition v_max :: int where
  "v_max = 1"

text \<open>
  \<^verbatim>\<open>v_min <= cfg.get('version', 0) <= v_max\<close>: a number compares, \<^verbatim>\<open>True\<close> is one and
  \<^verbatim>\<open>False\<close> zero, and any other value raises.
\<close>

definition version_in_range :: "(string \<times> json) list \<Rightarrow> error + bool" where
  "version_in_range cfg =
     (case jget cfg ''version'' of
        None \<Rightarrow> Inr (v_min \<le> 0 \<and> 0 \<le> v_max)
      | Some (JInt n) \<Rightarrow> Inr (v_min \<le> n \<and> n \<le> v_max)
      | Some (JFloat r) \<Rightarrow> Inr (of_int v_min \<le> r \<and> r \<le> of_int v_max)
      | Some (JBool b) \<Rightarrow> Inr (v_min \<le> (if b then 1 else 0) \<and> (if b then 1 else 0) \<le> v_max)
      | Some _ \<Rightarrow> Inl TypeError)"

text \<open>The loop of lines 407 to 413 over the results, which are all computed before it.\<close>

fun first_failed :: "(string \<times> bool) list \<Rightarrow> error + unit" where
  "first_failed [] = Inr ()"
| "first_failed ((name, result) # rest) =
     (if \<not> result then Inl (InvalidConfig name) else first_failed rest)"

definition sanity_checks :: "(string \<times> json) list \<Rightarrow> error + unit" where
  "sanity_checks cfg =
     (case version_in_range cfg of
        Inl e \<Rightarrow> Inl e
      | Inr version_ok \<Rightarrow>
          first_failed
            [(''type'', jget cfg ''type'' = Some (JStr typestr)),
             (''version'', version_ok),
             (''actions'', (case jget cfg ''actions'' of Some (JList xs) \<Rightarrow> True | _ \<Rightarrow> False))])"

text \<open>
  Lines 421 to 425: \<^verbatim>\<open>len(paths)\<close> and, when it is positive, \<^verbatim>\<open>paths.items()\<close>, which only
  an object has.
\<close>

definition get_paths :: "(string \<times> json) list \<Rightarrow> error + json" where
  "get_paths cfg =
     (case jget cfg ''paths'' of
        None \<Rightarrow> Inr (JObj [])
      | Some (JObj items) \<Rightarrow> Inr (JObj items)
      | Some (JStr s) \<Rightarrow> (if length s > 0 then Inl TypeError else Inr (JStr s))
      | Some (JList xs) \<Rightarrow> (if length xs > 0 then Inl TypeError else Inr (JList xs))
      | Some _ \<Rightarrow> Inl TypeError)"

text \<open>The executors by the name of the action.\<close>

definition run_action ::
  "env \<Rightarrow> filesystem \<Rightarrow> string \<Rightarrow> string option \<Rightarrow> string \<Rightarrow> (string \<times> json) list \<Rightarrow>
   json \<Rightarrow> filesystem \<times> (error + unit)" where
  "run_action E fs repo_link commit path row paths =
     (let action = row_action row in
      if action = ''copy'' \<or> action = ''move'' then
        copymove E fs repo_link commit path row paths
      else if action = ''compile-coffee'' then
        compile_coffee E fs repo_link commit path row paths
      else if action = ''minimize-js'' then
        minimize_js E fs repo_link commit path row paths
      else if action = ''export'' then
        action_export E fs repo_link commit path row paths
      else if action = ''import'' then
        action_import E fs repo_link commit path row paths
      else (fs, Inl (UnsupportedAction action)))"

text \<open>The loop of lines 437 to 450; \<open>idx\<close> counts the rows from zero.\<close>

fun run_actions ::
  "env \<Rightarrow> filesystem \<Rightarrow> string \<Rightarrow> string option \<Rightarrow> string \<Rightarrow> json \<Rightarrow> nat \<Rightarrow> nat \<Rightarrow>
   json list \<Rightarrow> filesystem \<times> (error + unit)" where
  "run_actions E fs repo_link commit path paths idx n_rows [] = (fs, Inr ())"
| "run_actions E fs repo_link commit path paths idx n_rows (row # rows) =
     (case row of
        JStr comment \<Rightarrow> run_actions E fs repo_link commit path paths (Suc idx) n_rows rows
      | JObj items \<Rightarrow>
          (case jget items ''type'' of
             Some (JStr t) \<Rightarrow>
               on_ok (run_action E fs repo_link commit path items paths) (\<lambda>fs1 u.
                 run_actions E fs1 repo_link commit path paths (Suc idx) n_rows rows)
           | _ \<Rightarrow> (fs, Inl (InvalidAction (idx + 1) n_rows)))
      | _ \<Rightarrow> (fs, Inl (InvalidAction (idx + 1) n_rows)))"

text \<open>\<^verbatim>\<open>execute\<close>, on the document once it is parsed (from line 403).\<close>

definition execute_cfg ::
  "env \<Rightarrow> filesystem \<Rightarrow> string \<Rightarrow> string option \<Rightarrow> string \<Rightarrow> json \<Rightarrow>
   filesystem \<times> (error + unit)" where
  "execute_cfg E fs repo_link commit path cfg0 =
     (case cfg0 of
        JObj cfg \<Rightarrow>
          on_ok (fs, sanity_checks cfg) (\<lambda>fs0 u.
            if jget cfg ''skip'' = Some (JBool True) then (fs0, Inr ())
            else
              on_ok (fs0, get_paths cfg) (\<lambda>fs1 paths.
                (case jget cfg ''actions'' of
                   Some (JList actions) \<Rightarrow>
                     run_actions E fs1 repo_link commit path paths 0 (length actions) actions
                 | _ \<Rightarrow> (fs1, Inl (KeyError ''actions'')))))
      | _ \<Rightarrow> (fs, Inl LoadError))"

text \<open>\<^verbatim>\<open>execute\<close>\<close>

definition execute ::
  "env \<Rightarrow> filesystem \<Rightarrow> string \<Rightarrow> string option \<Rightarrow> string \<Rightarrow> string \<Rightarrow>
   filesystem \<times> (error + unit)" where
  "execute E fs repo_link commit path config =
     (case read_file fs (abspath (getcwd E) (join path config)) of
        Inl e \<Rightarrow> (fs, Inl e)
      | Inr text \<Rightarrow>
          (case json_loads E (universal_newlines text) of
             None \<Rightarrow> (fs, Inl ValueError)
           | Some cfg \<Rightarrow> execute_cfg E fs repo_link commit path cfg))"

section \<open>Deploying\<close>

text \<open>
  A row of the table \<^verbatim>\<open>github_deploy_repo\<close>, and the table by the name of the repository.
  The database is taken to accept every statement.
\<close>

record db_row =
  commit_hash :: string
  datetime :: int
  status_code :: int

type_synonym db_table = "string \<Rightarrow> db_row option"

definition set_repo_status ::
  "env \<Rightarrow> db_table \<Rightarrow> string \<Rightarrow> string \<Rightarrow> string option \<Rightarrow> int \<Rightarrow> db_table" where
  "set_repo_status E cnx owner name commit status =
     (let repo = owner @ ''/'' @ name in
      case commit of
        Some c \<Rightarrow>
          cnx(repo \<mapsto> \<lparr>commit_hash = c, datetime = sql_now E, status_code = status\<rparr>)
      | None \<Rightarrow>
          cnx(repo \<mapsto>
            \<lparr>commit_hash = (case cnx repo of
                              None \<Rightarrow> replicate 40 CHR ''0''
                            | Some r \<Rightarrow> commit_hash r),
             datetime = sql_now E, status_code = status\<rparr>))"

record world =
  files :: filesystem
  table :: db_table

definition tmpdir :: string where
  "tmpdir = ''github_deploy_repo__tmp''"

definition repo_url :: "string \<Rightarrow> string \<Rightarrow> string" where
  "repo_url owner name =
     (if owner = ''<local>'' then ''file://'' @ name
      else ''https://github.com/'' @ owner @ ''/'' @ name @ ''.git'')"

text \<open>
  The body of the \<^verbatim>\<open>try\<close> of \<^verbatim>\<open>deploy_repo\<close> (lines 459 to 507): the filesystem it leaves,
  the commit, and the status it reached or the exception it raised.  \<^verbatim>\<open>os.makedirs\<close> of
  the one-component name \<^verbatim>\<open>tmpdir\<close> is \<^verbatim>\<open>os.mkdir\<close>.
\<close>

definition deploy_attempt ::
  "env \<Rightarrow> filesystem \<Rightarrow> string \<Rightarrow> string \<Rightarrow> filesystem \<times> string option \<times> (error + int)" where
  "deploy_attempt E fs owner name =
     (case os_mkdir fs (abspath (getcwd E) tmpdir) of
        Inl e \<Rightarrow> (fs, None, Inl e)
      | Inr fs1 \<Rightarrow>
          (case fetch E owner name fs1 of
             (fs2, commit, Some e) \<Rightarrow> (fs2, commit, Inl e)
           | (fs2, commit, None) \<Rightarrow>
               (let url = repo_url owner name;
                    config_name = ''deploy.json'';
                    config_file = join tmpdir config_name
                in if path_isfile fs2 (abspath (getcwd E) config_file) then
                     (case execute E fs2 (take (length url - 4) url) commit tmpdir config_name of
                        (fs3, Inl e) \<Rightarrow> (fs3, commit, Inl e)
                      | (fs3, Inr u) \<Rightarrow> (fs3, commit, Inr 1))
                   else (fs2, commit, Inr 2))))"

text \<open>\<^verbatim>\<open>deploy_repo\<close>: the attempt, the cleanup, the status, and the exception if there is one.\<close>

definition deploy_repo ::
  "env \<Rightarrow> world \<Rightarrow> string \<Rightarrow> string \<Rightarrow> world \<times> (error + unit)" where
  "deploy_repo E w owner name =
     (case deploy_attempt E (files w) owner name of (fs1, commit, r) \<Rightarrow>
      let status = (case r of Inl ex \<Rightarrow> - 1 | Inr s \<Rightarrow> s);
          exception0 = (case r of Inl ex \<Rightarrow> Some ex | Inr s \<Rightarrow> None)
      in case shutil_rmtree E fs1 (abspath (getcwd E) tmpdir) of (fs2, c) \<Rightarrow>
      let exception1 = (case c of
                          Inl ex \<Rightarrow> (if exception0 = None then Some ex else exception0)
                        | Inr u \<Rightarrow> exception0);
          cnx = set_repo_status E (table w) owner name commit status
      in (\<lparr>files = fs2, table = cnx\<rparr>,
          case exception1 of Some ex \<Rightarrow> Inl ex | None \<Rightarrow> Inr ()))"

text \<open>The loop of \<^verbatim>\<open>deploy_all\<close>, with the list \<^verbatim>\<open>exceptions\<close> it appends to.\<close>

fun deploy_loop ::
  "env \<Rightarrow> world \<Rightarrow> error list \<Rightarrow> (string \<times> string) list \<Rightarrow> world \<times> error list" where
  "deploy_loop E w exceptions [] = (w, exceptions)"
| "deploy_loop E w exceptions ((owner, name) # repos) =
     (case deploy_repo E w owner name of
        (w1, Inl ex) \<Rightarrow> deploy_loop E w1 (exceptions @ [ex]) repos
      | (w1, Inr u) \<Rightarrow> deploy_loop E w1 exceptions repos)"

definition deploy_all ::
  "env \<Rightarrow> world \<Rightarrow> (string \<times> string) list \<Rightarrow> world \<times> (error + unit)" where
  "deploy_all E w repos =
     (case deploy_loop E w [] repos of (w1, exceptions) \<Rightarrow>
        (w1, if length exceptions > 0 then Inl (exceptions ! 0) else Inr ()))"

section \<open>The behaviour the specification words\<close>

text \<open>
  The batch runner in the specification's words: every unit is attempted in turn, on the
  state the unit before it left and whatever that unit's outcome was; the outcomes are
  listed in order.
\<close>

fun attempt_each :: "env \<Rightarrow> world \<Rightarrow> (string \<times> string) list \<Rightarrow> world \<times> (error + unit) list" where
  "attempt_each E w [] = (w, [])"
| "attempt_each E w ((owner, name) # repos) =
     (case deploy_repo E w owner name of (w1, r) \<Rightarrow>
        (case attempt_each E w1 repos of (w2, rs) \<Rightarrow> (w2, r # rs)))"

text \<open>The first failure among the outcomes is surfaced, if there is one.\<close>

fun first_failure :: "(error + unit) list \<Rightarrow> error + unit" where
  "first_failure [] = Inr ()"
| "first_failure (Inl e # rs) = Inl e"
| "first_failure (Inr u # rs) = first_failure rs"

text \<open>
  The comment wrappers of the specification by extension: the text before the header,
  the text after it, and what goes before and after each line of it.
\<close>

definition comment_wrapper :: "string \<Rightarrow> (string \<times> string \<times> string \<times> string) option" where
  "comment_wrapper e =
     (if e \<in> set [''js'', ''min.js'', ''css'', ''c'', ''cpp'', ''h'', ''hpp'', ''java'']
        then Some (''/*'' @ [newline], ''*/'' @ [newline, newline, newline, newline], [], [])
      else if e \<in> set [''html'', ''xml'']
        then Some (''<!--'' @ [newline], ''-->'' @ [newline, newline, newline, newline], [], [])
      else if e \<in> set [''py'', ''r'', ''coffee'', ''htaccess'']
        then Some ([], [newline, newline, newline], ''# '', '' #'')
      else if e = ''php''
        then Some (''<?php /*'' @ [newline],
                   ''*/'' @ [newline, newline, newline, newline] @ ''?>'', [], [])
      else None)"

text \<open>The banner and the metadata lines, each between the line's prefix and suffix.\<close>

definition banner :: "env \<Rightarrow> string \<Rightarrow> string option \<Rightarrow> string \<Rightarrow> string \<Rightarrow> string" where
  "banner E repo_link commit pre_line post_line =
     concat (map (\<lambda>line. pre_line @ line @ post_line @ [newline])
       (HEADER_LINES
        @ map (\<lambda>line. center line HEADER_WIDTH) (header_text E repo_link commit)))"

text \<open>A name of a directory entry other than \<^verbatim>\<open>.\<close> and \<^verbatim>\<open>..\<close>.\<close>

definition proper :: "string \<Rightarrow> bool" where
  "proper n = (n \<noteq> [] \<and> slash \<notin> set n \<and> n \<noteq> ''.'' \<and> n \<noteq> ''..'')"

text \<open>A prefix after which a name starts a new component.\<close>

definition ends_dir :: "string \<Rightarrow> bool" where
  "ends_dir y = (y = [] \<or> last y = slash)"

text \<open>The paths \<^verbatim>\<open>normpath\<close> returns for an absolute path: one or two slashes and names.\<close>

definition canonical :: "string \<Rightarrow> bool" where
  "canonical p =
     (\<exists>k cs. (k = 1 \<or> k = 2) \<and> (\<forall>c \<in> set cs. proper c)
        \<and> p = replicate k slash @ sep_join ''/'' cs)"

section \<open>Concrete runs\<close>

text \<open>
  An environment to run the program in: the current directory is \<^verbatim>\<open>/srv\<close>, nothing
  parses, every command succeeds and changes nothing, trees are removed without
  fault, and a fetch leaves the workspace empty under the commit \<^verbatim>\<open>c0ffee\<close>.
\<close>

definition env0 :: env where
  "env0 =
     \<lparr>getcwd = ''/srv'',
      json_loads = (\<lambda>text. None),
      re_compile = (\<lambda>pattern. None),
      glob_magic = (\<lambda>fs d. []),
      shell = (\<lambda>cmd fs. (fs, Some [])),
      rmtree_fault = (\<lambda>d fs. None),
      time_now = 1481000000,
      isoformat = (\<lambda>t. ''2016-12-06 04:53:20''),
      fetch = (\<lambda>owner name fs. (fs, Some ''c0ffee'', None)),
      sql_now = 0\<rparr>"

definition fs0 :: filesystem where
  "fs0 = [(''/'', Dir), (''/srv'', Dir)]"

definition world0 :: world where
  "world0 = \<lparr>files = fs0, table = (\<lambda>repo. None)\<rparr>"

text \<open>A batch of three units where the fetch of the second fails.\<close>

definition batch_env :: env where
  "batch_env =
     env0\<lparr>fetch := (\<lambda>owner name fs.
             if name = ''two'' then (fs, None, Some FetchError)
             else (fs, Some ''c0ffee'', None))\<rparr>"

definition batch_repos :: "(string \<times> string) list" where
  "batch_repos = [(''acme'', ''one''), (''acme'', ''two''), (''acme'', ''three'')]"

text \<open>The fetch fails, and then the removal of the workspace is refused.\<close>

definition faulty_env :: env where
  "faulty_env =
     env0\<lparr>fetch := (\<lambda>owner name fs. (fs, None, Some FetchError)),
          rmtree_fault := (\<lambda>d fs. Some fs)\<rparr>"

text \<open>The fetch succeeds, and then the removal of the workspace is refused.\<close>

definition locked_env :: env where
  "locked_env = env0\<lparr>rmtree_fault := (\<lambda>d fs. Some fs)\<rparr>"

text \<open>
  A workspace whose instruction document is valid, asks to be skipped, and lists an
  action.
\<close>

definition skip_text :: string where
  \<open>skip_text = ''{"type": "delphi deploy config", "version": 1, "skip": true, "actions": [{"type": "move", "src": "a.js", "dst": "/srv/www/a.js"}]}''\<close>

definition skip_cfg :: "(string \<times> json) list" where
  "skip_cfg =
     [(''type'', JStr ''delphi deploy config''),
      (''version'', JInt 1),
      (''skip'', JBool True),
      (''actions'',
       JList [JObj [(''type'', JStr ''move''), (''src'', JStr ''a.js''),
                    (''dst'', JStr ''/srv/www/a.js'')]])]"

definition skip_env :: env where
  "skip_env =
     env0\<lparr>json_loads := (\<lambda>text. if text = skip_text then Some (JObj skip_cfg) else None),
          fetch := (\<lambda>owner name fs.
            (fs @ [(''/srv/github_deploy_repo__tmp/deploy.json'', File skip_text),
                   (''/srv/github_deploy_repo__tmp/a.js'', File ''x'')],
             Some ''c0ffee'', None))\<rparr>"

text \<open>An instruction document of version 2 that asks to be skipped.\<close>

definition v2_text :: string where
  \<open>v2_text = ''{"type": "delphi deploy config", "version": 2, "skip": true, "actions": []}''\<close>

definition v2_cfg :: "(string \<times> json) list" where
  "v2_cfg =
     [(''type'', JStr ''delphi deploy config''),
      (''version'', JInt 2),
      (''skip'', JBool True),
      (''actions'', JList [])]"

definition v2_env :: env where
  "v2_env =
     env0\<lparr>json_loads := (\<lambda>text. if text = v2_text then Some (JObj v2_cfg) else None)\<rparr>"

definition v2_fs :: filesystem where
  "v2_fs =
     fs0 @ [(''/srv/github_deploy_repo__tmp'', Dir),
            (''/srv/github_deploy_repo__tmp/deploy.json'', File v2_text)]"

text \<open>
  A workspace and the shared directory \<^verbatim>\<open>exports\<close>, which is empty; and an \<^verbatim>\<open>import\<close> row
  for a link \<^verbatim>\<open>/srv/www/lib.js\<close>.
\<close>

definition import_fs :: filesystem where
  "import_fs = fs0 @ [(''/srv/exports'', Dir), (''/srv/github_deploy_repo__tmp'', Dir)]"

definition import_row :: "(string \<times> json) list" where
  "import_row = [(''type'', JStr ''import''), (''dst'', JStr ''/srv/www/lib.js'')]"

text \<open>A workspace with one JavaScript file, \<^verbatim>\<open>app.js\<close>, of content \<^verbatim>\<open>x\<close>.\<close>

definition header_fs :: filesystem where
  "header_fs =
     fs0 @ [(''/srv/github_deploy_repo__tmp'', Dir),
            (''/srv/github_deploy_repo__tmp/app.js'', File ''x'')]"

definition app_js :: fileinfo where
  "app_js =
     \<lparr>absname = ''/srv/github_deploy_repo__tmp/app.js'',
      dirname = ''/srv/github_deploy_repo__tmp'',
      basename = ''app.js'', ext = ''js''\<rparr>"

text \<open>
  A workspace with a directory \<^verbatim>\<open>js\<close> that holds exactly \<^verbatim>\<open>a.js\<close>, \<^verbatim>\<open>b.js\<close> and \<^verbatim>\<open>c.txt\<close>; the
  same with a file \<^verbatim>\<open>.htaccess\<close> added; and the patterns \<^verbatim>\<open>\.js$\<close>, \<^verbatim>\<open>.*\.js$\<close> and \<^verbatim>\<open>.*\<close> as
  \<^verbatim>\<open>re\<close> compiles them.
\<close>

definition js_fs :: filesystem where
  "js_fs =
     fs0 @ [(''/srv/www'', Dir),
            (''/srv/github_deploy_repo__tmp'', Dir),
            (''/srv/github_deploy_repo__tmp/js'', Dir),
            (''/srv/github_deploy_repo__tmp/js/a.js'', File ''A''),
            (''/srv/github_deploy_repo__tmp/js/b.js'', File ''B''),
            (''/srv/github_deploy_repo__tmp/js/c.txt'', File ''C'')]"

definition hidden_fs :: filesystem where
  "hidden_fs = js_fs @ [(''/srv/github_deploy_repo__tmp/js/.htaccess'', File ''H'')]"

definition js_suffix :: regex where
  "js_suffix = Cat (Lit CHR ''.'') (Cat (Lit CHR ''j'') (Cat (Lit CHR ''s'') Eol))"

definition match_env :: env where
  "match_env =
     env0\<lparr>re_compile := (\<lambda>pattern.
        if pattern = [backslash] @ ''.js$'' then Some js_suffix
        else if pattern = ''.*'' @ [backslash] @ ''.js$'' then Some (Cat (Star Dot) js_suffix)
        else if pattern = ''.*'' then Some (Star Dot)
        else None)\<rparr>"

definition copy_row :: "string \<Rightarrow> (string \<times> json) list" where
  "copy_row pattern =
     [(''type'', JStr ''copy''), (''src'', JStr ''js''), (''dst'', JStr ''/srv/www/js''),
      (''match'', JStr pattern)]"

text \<open>A file of the directory \<^verbatim>\<open>js\<close> of that workspace, and its copy under \<^verbatim>\<open>/srv/www/js\<close>.\<close>

definition src_file :: "string \<Rightarrow> string \<Rightarrow> fileinfo" where
  "src_file n e =
     \<lparr>absname = ''/srv/github_deploy_repo__tmp/js/'' @ n,
      dirname = ''/srv/github_deploy_repo__tmp/js'', basename = n, ext = e\<rparr>"

definition dst_file :: "string \<Rightarrow> string \<Rightarrow> fileinfo" where
  "dst_file n e =
     \<lparr>absname = ''/srv/www/js/'' @ n, dirname = ''/srv/www/js'', basename = n, ext = e\<rparr>"

section \<open>Properties\<close>

lemma get_file_default: "get_file cwd name path (JObj []) = Inr (get_file_plain cwd name path)"
  by (simp add: get_file_def get_substituted_path_def)

lemmas path_defs =
  get_file_plain_def abspath_def isabs_def join_def endswith_def normpath_def
  initial_slashes_def path_split_def

text \<open>
  C1 (the guard lets a path outside the workspace through).  The workspace of a
  deployment is \<^verbatim>\<open>github_deploy_repo__tmp\<close> under the current directory.  A source
  named \<^verbatim>\<open>../github_deploy_repo__tmp2/secret.txt\<close> resolves to a file of the sibling
  directory \<^verbatim>\<open>github_deploy_repo__tmp2\<close>, which is not a descendant of the workspace,
  and \<^verbatim>\<open>check_file\<close> returns without raising: the string of the sibling starts with
  the string of the workspace.
\<close>

theorem check_file_accepts_sibling:
  "get_file ''/home/automation'' ''../github_deploy_repo__tmp2/secret.txt''
       (Some ''github_deploy_repo__tmp'') (JObj []) =
     Inr \<lparr>absname = ''/home/automation/github_deploy_repo__tmp2/secret.txt'',
          dirname = ''/home/automation/github_deploy_repo__tmp2'',
          basename = ''secret.txt'', ext = ''txt''\<rparr>
   \<and> check_file ''/home/automation''
         ''/home/automation/github_deploy_repo__tmp2/secret.txt''
         ''github_deploy_repo__tmp'' = Inr ()"
  by (simp add: get_file_default check_file_def path_defs Let_def)

lemma startswith_append: "startswith (p @ s) p"
  by (induction p) auto

text \<open>
  What the guard does do: a path that continues the resolved root is accepted, and a path
  such as \<^verbatim>\<open>/etc/passwd\<close>, or one that leaves the workspace through \<^verbatim>\<open>..\<close> for a directory
  of another name, is rejected.
\<close>

lemma check_file_inside:
  "check_file wd (absname (get_file_plain wd path None) @ ''/'' @ rest) path = Inr ()"
  by (simp add: check_file_def Let_def startswith_append)

lemma check_file_rejects:
  "check_file ''/home/automation'' ''/etc/passwd'' ''github_deploy_repo__tmp'' =
     Inl (NotInside ''/etc/passwd'' ''/home/automation/github_deploy_repo__tmp'')"
  "check_file ''/home/automation''
     (absname (get_file_plain ''/home/automation'' ''../other/secret.txt''
                 (Some ''github_deploy_repo__tmp'')))
     ''github_deploy_repo__tmp'' =
     Inl (NotInside ''/home/automation/other/secret.txt''
            ''/home/automation/github_deploy_repo__tmp'')"
  by (simp_all add: check_file_def path_defs Let_def)

subsection \<open>Evaluation\<close>

lemma follow_numeral:
  "follow (numeral n) fs p =
     (case map_of fs p of
        Some (Link t) \<Rightarrow> follow (pred_numeral n) fs (normpath (join (fst (path_split p)) t))
      | _ \<Rightarrow> Some p)"
  by (simp add: numeral_eq_Suc)

lemmas fs_defs = stat_def path_exists_def path_isfile_def path_isdir_def path_islink_def
  read_file_def write_file_def os_mkdir_def follow_numeral

lemmas deploy_defs = deploy_repo_def deploy_attempt_def tmpdir_def shutil_rmtree_def below_def
  set_repo_status_def repo_url_def

lemmas run_defs = env0_def world0_def fs0_def

subsection \<open>The deployment of units\<close>

lemma deploy_repo_result:
  assumes "deploy_attempt E (files w) owner name = (fs1, commit, r)"
      and "shutil_rmtree E fs1 (abspath (getcwd E) tmpdir) = (fs2, c)"
  shows "deploy_repo E w owner name =
           (\<lparr>files = fs2,
             table = set_repo_status E (table w) owner name commit
                       (case r of Inl ex \<Rightarrow> - 1 | Inr s \<Rightarrow> s)\<rparr>,
            case r of
              Inl ex \<Rightarrow> Inl ex
            | Inr s \<Rightarrow> (case c of Inl ex \<Rightarrow> Inl ex | Inr u \<Rightarrow> Inr ()))"
  using assms by (simp add: deploy_repo_def Let_def split: sum.splits)

lemma set_repo_status_at:
  "\<exists>row. set_repo_status E cnx owner name commit status (owner @ ''/'' @ name) = Some row
         \<and> status_code row = status"
  by (simp add: set_repo_status_def Let_def split: option.splits)

lemma set_repo_status_keeps:
  "cnx k \<noteq> None \<Longrightarrow> set_repo_status E cnx owner name commit status k \<noteq> None"
  by (simp add: set_repo_status_def Let_def split: option.splits)

lemma deploy_repo_table:
  "table (fst (deploy_repo E w owner name)) =
     set_repo_status E (table w) owner name
       (fst (snd (deploy_attempt E (files w) owner name)))
       (case snd (snd (deploy_attempt E (files w) owner name)) of Inl ex \<Rightarrow> - 1 | Inr s \<Rightarrow> s)"
  by (simp add: deploy_repo_def Let_def split: prod.splits sum.splits)

lemma deploy_loop_attempt_each:
  "deploy_loop E w acc repos =
     (fst (attempt_each E w repos),
      acc @ List.map_filter (\<lambda>r. case r of Inl e \<Rightarrow> Some e | Inr u \<Rightarrow> None)
              (snd (attempt_each E w repos)))"
proof (induction repos arbitrary: w acc)
  case Nil
  show ?case by (simp add: List.map_filter_simps)
next
  case (Cons unit repos)
  obtain owner name where u: "unit = (owner, name)" by (cases unit)
  obtain w1 r where d: "deploy_repo E w owner name = (w1, r)" by (cases "deploy_repo E w owner name")
  show ?case
    by (cases r) (simp_all add: u d Cons.IH List.map_filter_simps split: prod.splits)
qed

lemma first_failure_filter:
  "first_failure rs =
     (case List.map_filter (\<lambda>r. case r of Inl e \<Rightarrow> Some e | Inr u \<Rightarrow> None) rs of
        [] \<Rightarrow> Inr () | e # es \<Rightarrow> Inl e)"
  by (induction rs rule: first_failure.induct) (simp_all add: List.map_filter_simps)

lemma length_attempt_each: "length (snd (attempt_each E w repos)) = length repos"
proof (induction repos arbitrary: w)
  case Nil
  show ?case by simp
next
  case (Cons unit repos)
  obtain owner name where u: "unit = (owner, name)" by (cases unit)
  obtain w1 r where d: "deploy_repo E w owner name = (w1, r)" by (cases "deploy_repo E w owner name")
  obtain w2 rs where a: "attempt_each E w1 repos = (w2, rs)" by (cases "attempt_each E w1 repos")
  from Cons.IH [of w1] show ?case by (simp add: u d a)
qed

lemma attempt_each_recorded:
  "(owner, name) \<in> set repos \<or> table w (owner @ ''/'' @ name) \<noteq> None
   \<Longrightarrow> table (fst (attempt_each E w repos)) (owner @ ''/'' @ name) \<noteq> None"
proof (induction repos arbitrary: w)
  case Nil
  then show ?case by simp
next
  case (Cons unit repos)
  obtain o1 n1 where u: "unit = (o1, n1)" by (cases unit)
  obtain w1 r where d: "deploy_repo E w o1 n1 = (w1, r)" by (cases "deploy_repo E w o1 n1")
  obtain w2 rs where a: "attempt_each E w1 repos = (w2, rs)" by (cases "attempt_each E w1 repos")
  have t: "table w1 = set_repo_status E (table w) o1 n1
       (fst (snd (deploy_attempt E (files w) o1 n1)))
       (case snd (snd (deploy_attempt E (files w) o1 n1)) of Inl ex \<Rightarrow> - 1 | Inr s \<Rightarrow> s)"
    using deploy_repo_table [of E w o1 n1] d by simp
  have "(owner, name) \<in> set repos \<or> table w1 (owner @ ''/'' @ name) \<noteq> None"
  proof (cases "(owner, name) \<in> set repos")
    case True
    then show ?thesis by simp
  next
    case False
    with Cons.prems u have "(owner, name) = (o1, n1) \<or> table w (owner @ ''/'' @ name) \<noteq> None"
      by auto
    then show ?thesis
    proof
      assume "(owner, name) = (o1, n1)"
      then show ?thesis using set_repo_status_at t by (metis option.distinct(1) prod.inject)
    next
      assume "table w (owner @ ''/'' @ name) \<noteq> None"
      then show ?thesis using set_repo_status_keeps t by metis
    qed
  qed
  from Cons.IH [OF this] show ?case by (simp add: u d a)
qed

text \<open>
  C4 (the batch runner).  \<^verbatim>\<open>deploy_all\<close> leaves the state in which every unit of the batch
  has been attempted in turn, whatever the outcomes of the units before it; it raises
  the first failure among the outcomes and nothing when there is none; and the status
  table has a row for every unit of the batch.
\<close>

theorem deploy_all_attempts_every_unit:
  "deploy_all E w repos =
     (fst (attempt_each E w repos), first_failure (snd (attempt_each E w repos)))
   \<and> length (snd (attempt_each E w repos)) = length repos
   \<and> (\<forall>(owner, name) \<in> set repos.
        table (fst (deploy_all E w repos)) (owner @ ''/'' @ name) \<noteq> None)"
proof -
  have 1: "deploy_all E w repos =
     (fst (attempt_each E w repos), first_failure (snd (attempt_each E w repos)))"
    by (simp add: deploy_all_def deploy_loop_attempt_each first_failure_filter split: list.splits)
  have 3: "\<forall>(owner, name) \<in> set repos.
        table (fst (attempt_each E w repos)) (owner @ ''/'' @ name) \<noteq> None"
    using attempt_each_recorded by blast
  show ?thesis using 1 3 length_attempt_each by simp
qed

theorem deploy_all_witness:
  "snd (deploy_all batch_env world0 batch_repos) = Inl FetchError
   \<and> table (fst (deploy_all batch_env world0 batch_repos)) ''acme/three'' \<noteq> None"
proof -
  have "(''acme'', ''three'') \<in> set batch_repos"
    by (simp add: batch_repos_def)
  with deploy_all_attempts_every_unit [of batch_env world0 batch_repos]
  have 1: "table (fst (deploy_all batch_env world0 batch_repos)) ''acme/three'' \<noteq> None"
    by fastforce
  have "snd (attempt_each batch_env world0 batch_repos) = [Inr (), Inl FetchError, Inr ()]"
    by (simp add: batch_repos_def batch_env_def run_defs deploy_defs path_defs fs_defs Let_def)
  with deploy_all_attempts_every_unit [of batch_env world0 batch_repos]
  have 2: "snd (deploy_all batch_env world0 batch_repos) = Inl FetchError"
    by simp
  from 1 2 show ?thesis by simp
qed

text \<open>
  C8 (teardown).  Whatever the attempt did (it reached a status, or raised while
  fetching, validating or running an action), \<^verbatim>\<open>deploy_repo\<close> goes on to remove the
  workspace from the filesystem the attempt left.  An exception of the attempt is the one
  raised, also when the removal fails; the failure of the removal is raised when the
  attempt raised nothing.
\<close>

theorem teardown_on_every_exit:
  assumes "deploy_attempt E (files w) owner name = (fs1, commit, r)"
      and "shutil_rmtree E fs1 (abspath (getcwd E) tmpdir) = (fs2, c)"
  shows "files (fst (deploy_repo E w owner name)) = fs2
         \<and> snd (deploy_repo E w owner name) =
             (case r of
                Inl earlier \<Rightarrow> Inl earlier
              | Inr s \<Rightarrow> (case c of Inl cleanup \<Rightarrow> Inl cleanup | Inr u \<Rightarrow> Inr ()))"
  using deploy_repo_result [OF assms] by simp

theorem teardown_on_every_exit_witness:
  "files (fst (deploy_repo faulty_env world0 ''acme'' ''one'')) =
     fs0 @ [(''/srv/github_deploy_repo__tmp'', Dir)]
   \<and> snd (deploy_repo faulty_env world0 ''acme'' ''one'') = Inl FetchError"
proof -
  have a: "deploy_attempt faulty_env (files world0) ''acme'' ''one'' =
          (fs0 @ [(''/srv/github_deploy_repo__tmp'', Dir)], None, Inl FetchError)"
    by (simp add: faulty_env_def run_defs deploy_defs path_defs fs_defs Let_def)
  have b: "shutil_rmtree faulty_env (fs0 @ [(''/srv/github_deploy_repo__tmp'', Dir)])
             (abspath (getcwd faulty_env) tmpdir) =
          (fs0 @ [(''/srv/github_deploy_repo__tmp'', Dir)],
           Inl (OSError ''/srv/github_deploy_repo__tmp''))"
    by (simp add: faulty_env_def run_defs deploy_defs path_defs fs_defs Let_def)
  from teardown_on_every_exit [OF a b] show ?thesis by simp
qed

lemma deploy_attempt_no_config:
  assumes "os_mkdir (files w) (abspath (getcwd E) tmpdir) = Inr fs1"
      and "fetch E owner name fs1 = (fs2, commit, None)"
      and "\<not> path_isfile fs2 (abspath (getcwd E) (join tmpdir ''deploy.json''))"
  shows "deploy_attempt E (files w) owner name = (fs2, commit, Inr 2)"
  using assms by (simp add: deploy_attempt_def Let_def)

lemma deploy_attempt_config:
  assumes "os_mkdir (files w) (abspath (getcwd E) tmpdir) = Inr fs1"
      and "fetch E owner name fs1 = (fs2, commit, None)"
      and "path_isfile fs2 (abspath (getcwd E) (join tmpdir ''deploy.json''))"
      and "execute E fs2 (take (length (repo_url owner name) - 4) (repo_url owner name)) commit
             tmpdir ''deploy.json'' = (fs3, r)"
  shows "deploy_attempt E (files w) owner name =
           (fs3, commit, case r of Inl e \<Rightarrow> Inl e | Inr u \<Rightarrow> Inr 1)"
  using assms by (simp add: deploy_attempt_def Let_def split: sum.splits)

lemma status_row:
  "\<exists>row. table (fst (deploy_repo E w owner name)) (owner @ ''/'' @ name) = Some row
         \<and> status_code row =
             (case snd (snd (deploy_attempt E (files w) owner name)) of
                Inl ex \<Rightarrow> - 1 | Inr s \<Rightarrow> s)"
  using set_repo_status_at by (simp add: deploy_repo_table)

text \<open>
  C3, as amended (the outcome is recorded before anything is raised).  When the attempt
  raises, while fetching, validating or running an action, the row of the unit has the
  status \<open>-1\<close> in the state in which \<^verbatim>\<open>deploy_repo\<close> raises that exception.  When the
  fetch succeeds and leaves no \<^verbatim>\<open>deploy.json\<close> at the root of the workspace, the row has the
  status \<open>2\<close>, and \<^verbatim>\<open>deploy_repo\<close> raises exactly when the removal of the workspace does:
  nothing when the removal succeeds, the error of the removal otherwise.
\<close>

theorem outcome_recorded:
  "(deploy_attempt E (files w) owner name = (fs1, commit, Inl ex) \<longrightarrow>
      snd (deploy_repo E w owner name) = Inl ex
      \<and> (\<exists>row. table (fst (deploy_repo E w owner name)) (owner @ ''/'' @ name) = Some row
                \<and> status_code row = - 1))
   \<and> (os_mkdir (files w) (abspath (getcwd E) tmpdir) = Inr fs1
      \<and> fetch E owner name fs1 = (fs2, commit, None)
      \<and> \<not> path_isfile fs2 (abspath (getcwd E) (join tmpdir ''deploy.json'')) \<longrightarrow>
      (\<exists>row. table (fst (deploy_repo E w owner name)) (owner @ ''/'' @ name) = Some row
             \<and> status_code row = 2)
      \<and> snd (deploy_repo E w owner name)
          = snd (shutil_rmtree E fs2 (abspath (getcwd E) tmpdir)))"
proof (intro conjI impI)
  assume a: "deploy_attempt E (files w) owner name = (fs1, commit, Inl ex)"
  obtain fs' c where b: "shutil_rmtree E fs1 (abspath (getcwd E) tmpdir) = (fs', c)"
    by (cases "shutil_rmtree E fs1 (abspath (getcwd E) tmpdir)")
  from deploy_repo_result [OF a b] show "snd (deploy_repo E w owner name) = Inl ex"
    by simp
  from status_row [of E w owner name] a
  show "\<exists>row. table (fst (deploy_repo E w owner name)) (owner @ ''/'' @ name) = Some row
                \<and> status_code row = - 1"
    by simp
next
  assume h: "os_mkdir (files w) (abspath (getcwd E) tmpdir) = Inr fs1
      \<and> fetch E owner name fs1 = (fs2, commit, None)
      \<and> \<not> path_isfile fs2 (abspath (getcwd E) (join tmpdir ''deploy.json''))"
  then have a: "deploy_attempt E (files w) owner name = (fs2, commit, Inr 2)"
    using deploy_attempt_no_config by blast
  obtain fs' c where b: "shutil_rmtree E fs2 (abspath (getcwd E) tmpdir) = (fs', c)"
    by (cases "shutil_rmtree E fs2 (abspath (getcwd E) tmpdir)")
  from status_row [of E w owner name] a
  show "\<exists>row. table (fst (deploy_repo E w owner name)) (owner @ ''/'' @ name) = Some row
             \<and> status_code row = 2"
    by simp
  from deploy_repo_result [OF a b]
  show "snd (deploy_repo E w owner name)
          = snd (shutil_rmtree E fs2 (abspath (getcwd E) tmpdir))"
    by (cases c) (simp_all add: b)
qed

theorem outcome_recorded_witness:
  "snd (deploy_repo batch_env world0 ''acme'' ''two'') = Inl FetchError
   \<and> (\<exists>row. table (fst (deploy_repo batch_env world0 ''acme'' ''two'')) ''acme/two'' = Some row
            \<and> status_code row = - 1)
   \<and> (\<exists>row. table (fst (deploy_repo batch_env world0 ''acme'' ''one'')) ''acme/one'' = Some row
            \<and> status_code row = 2)
   \<and> snd (deploy_repo batch_env world0 ''acme'' ''one'') = Inr ()"
proof -
  let ?fs1 = "fs0 @ [(''/srv/github_deploy_repo__tmp'', Dir)]"
  have a: "deploy_attempt batch_env (files world0) ''acme'' ''two'' = (?fs1, None, Inl FetchError)"
    by (simp add: batch_env_def run_defs deploy_defs path_defs fs_defs Let_def)
  have m: "os_mkdir (files world0) (abspath (getcwd batch_env) tmpdir) = Inr ?fs1"
    by (simp add: batch_env_def run_defs deploy_defs path_defs fs_defs Let_def)
  have f: "fetch batch_env ''acme'' ''one'' ?fs1 = (?fs1, Some ''c0ffee'', None)"
    by (simp add: batch_env_def run_defs)
  have n: "\<not> path_isfile ?fs1 (abspath (getcwd batch_env) (join tmpdir ''deploy.json''))"
    by (simp add: batch_env_def run_defs deploy_defs path_defs fs_defs Let_def)
  have r: "snd (shutil_rmtree batch_env ?fs1 (abspath (getcwd batch_env) tmpdir)) = Inr ()"
    by (simp add: batch_env_def run_defs deploy_defs path_defs fs_defs Let_def)
  from outcome_recorded [of batch_env world0 "''acme''" "''two''" ?fs1 None FetchError] a
  have 1: "snd (deploy_repo batch_env world0 ''acme'' ''two'') = Inl FetchError
      \<and> (\<exists>row. table (fst (deploy_repo batch_env world0 ''acme'' ''two'')) ''acme/two'' = Some row
                \<and> status_code row = - 1)"
    by simp
  from outcome_recorded [of batch_env world0 "''acme''" "''one''" ?fs1 "Some ''c0ffee''" FetchError ?fs1]
    m f n r
  have 2: "(\<exists>row. table (fst (deploy_repo batch_env world0 ''acme'' ''one'')) ''acme/one'' = Some row
            \<and> status_code row = 2)
      \<and> snd (deploy_repo batch_env world0 ''acme'' ''one'') = Inr ()"
    by simp
  from 1 2 show ?thesis by simp
qed

text \<open>
  The claim as stated fails: a package without \<^verbatim>\<open>deploy.json\<close> whose workspace cannot be
  removed is recorded as skipped, and the error of the removal goes to the caller.
\<close>

theorem skipped_unit_raises_cleanup_error:
  "\<not> path_isfile (fst (fetch locked_env ''<local>'' ''pkg.tgz''
                       (fs0 @ [(''/srv/github_deploy_repo__tmp'', Dir)])))
        ''/srv/github_deploy_repo__tmp/deploy.json''
   \<and> deploy_repo locked_env world0 ''<local>'' ''pkg.tgz'' =
       (\<lparr>files = fs0 @ [(''/srv/github_deploy_repo__tmp'', Dir)],
         table = (\<lambda>repo. None)(''<local>/pkg.tgz'' \<mapsto>
                   \<lparr>commit_hash = ''c0ffee'', datetime = 0, status_code = 2\<rparr>)\<rparr>,
        Inl (OSError ''/srv/github_deploy_repo__tmp''))"
  by (simp add: locked_env_def run_defs deploy_defs path_defs fs_defs Let_def)

subsection \<open>The instruction document and the skip\<close>

lemma map_of_filter_out:
  "\<not> P p \<Longrightarrow> map_of (filter (\<lambda>(q, n). P q) fs) p = None"
  by (induction fs) auto

lemma rmtree_removes:
  assumes "map_of fs d = Some Dir" and "rmtree_fault E d fs = None"
  shows "snd (shutil_rmtree E fs d) = Inr ()"
    and "below d p \<Longrightarrow> map_of (fst (shutil_rmtree E fs d)) p = None"
  using assms map_of_filter_out [of "\<lambda>q. \<not> below d q" p fs]
  by (simp_all add: shutil_rmtree_def)

lemma first_failed_three:
  "first_failed [(a, x), (b, y), (c, z)] =
     (if \<not> x then Inl (InvalidConfig a) else if \<not> y then Inl (InvalidConfig b)
      else if \<not> z then Inl (InvalidConfig c) else Inr ())"
  by simp

lemma execute_parsed:
  assumes "read_file fs (abspath (getcwd E) (join path config)) = Inr text"
      and "json_loads E (universal_newlines text) = Some cfg"
  shows "execute E fs repo_link commit path config = execute_cfg E fs repo_link commit path cfg"
  using assms by (simp add: execute_def)

lemma read_file_isfile: "read_file fs p = Inr text \<Longrightarrow> path_isfile fs p"
  by (auto simp: read_file_def path_isfile_def split: option.splits node.splits)

text \<open>
  C7 (skip).  For a document that is valid (the type is the sentinel, the version is in
  range, \<^verbatim>\<open>actions\<close> is a list) with \<^verbatim>\<open>skip\<close> true and a list of actions that is not empty,
  whatever its rows are: \<^verbatim>\<open>execute\<close> returns without raising and leaves the filesystem as
  it found it, under every shell; and \<^verbatim>\<open>deploy_repo\<close> on a workspace fetched with that
  document records the status \<open>1\<close> and removes the workspace as the fetch left it.  Where
  the removal is not refused nothing is raised and no path of the workspace remains.
\<close>

theorem skip_runs_no_action:
  assumes "jget cfg ''type'' = Some (JStr typestr)"
      and "version_in_range cfg = Inr True"
      and "jget cfg ''actions'' = Some (JList actions)"
      and "actions \<noteq> []"
      and "jget cfg ''skip'' = Some (JBool True)"
      and "json_loads E (universal_newlines text) = Some (JObj cfg)"
  shows "(read_file fs (abspath (getcwd E) (join path config)) = Inr text \<longrightarrow>
            execute E fs repo_link commit path config = (fs, Inr ()))
       \<and> (os_mkdir (files w) (abspath (getcwd E) tmpdir) = Inr fs1
          \<and> fetch E owner name fs1 = (fs2, commit, None)
          \<and> read_file fs2 (abspath (getcwd E) (join tmpdir ''deploy.json'')) = Inr text \<longrightarrow>
            deploy_repo E w owner name =
              (\<lparr>files = fst (shutil_rmtree E fs2 (abspath (getcwd E) tmpdir)),
                table = set_repo_status E (table w) owner name commit 1\<rparr>,
               snd (shutil_rmtree E fs2 (abspath (getcwd E) tmpdir)))
            \<and> (map_of fs2 (abspath (getcwd E) tmpdir) = Some Dir
               \<and> rmtree_fault E (abspath (getcwd E) tmpdir) fs2 = None \<longrightarrow>
                 snd (deploy_repo E w owner name) = Inr ()
                 \<and> (\<forall>p. below (abspath (getcwd E) tmpdir) p \<longrightarrow>
                       map_of (files (fst (deploy_repo E w owner name))) p = None)))"
proof -
  have cfg: "execute_cfg E fs' repo_link' commit' path' (JObj cfg) = (fs', Inr ())"
    for fs' repo_link' commit' path'
    using assms(1,2,3,5) by (simp add: execute_cfg_def on_ok_def sanity_checks_def)
  have ex: "read_file fs' (abspath (getcwd E) (join path' config')) = Inr text \<Longrightarrow>
      execute E fs' repo_link' commit' path' config' = (fs', Inr ())"
    for fs' repo_link' commit' path' config'
    using execute_parsed [OF _ assms(6)] cfg by simp
  show ?thesis
  proof (intro conjI impI)
    assume "read_file fs (abspath (getcwd E) (join path config)) = Inr text"
    then show "execute E fs repo_link commit path config = (fs, Inr ())" by (rule ex)
  next
    assume h: "os_mkdir (files w) (abspath (getcwd E) tmpdir) = Inr fs1
          \<and> fetch E owner name fs1 = (fs2, commit, None)
          \<and> read_file fs2 (abspath (getcwd E) (join tmpdir ''deploy.json'')) = Inr text"
    then have a: "deploy_attempt E (files w) owner name = (fs2, commit, Inr 1)"
      using deploy_attempt_config [of w E fs1 owner name fs2 commit fs2 "Inr ()"]
        read_file_isfile ex by simp
    obtain fs' c where b: "shutil_rmtree E fs2 (abspath (getcwd E) tmpdir) = (fs', c)"
      by (cases "shutil_rmtree E fs2 (abspath (getcwd E) tmpdir)")
    from deploy_repo_result [OF a b]
    show d: "deploy_repo E w owner name =
              (\<lparr>files = fst (shutil_rmtree E fs2 (abspath (getcwd E) tmpdir)),
                table = set_repo_status E (table w) owner name commit 1\<rparr>,
               snd (shutil_rmtree E fs2 (abspath (getcwd E) tmpdir)))"
      by (cases c) (simp_all add: b)
    assume t: "map_of fs2 (abspath (getcwd E) tmpdir) = Some Dir
               \<and> rmtree_fault E (abspath (getcwd E) tmpdir) fs2 = None"
    then show "snd (deploy_repo E w owner name) = Inr ()"
      using rmtree_removes(1) d by simp
    from t show "\<forall>p. below (abspath (getcwd E) tmpdir) p \<longrightarrow>
                       map_of (files (fst (deploy_repo E w owner name))) p = None"
      using rmtree_removes(2) d by simp
  qed
qed

text \<open>
  C9 (validation comes before the skip).  For a document with \<^verbatim>\<open>skip\<close> true whose type is
  not the sentinel, whose version is not in range, or whose \<^verbatim>\<open>actions\<close> is not a list,
  \<^verbatim>\<open>execute\<close> raises and never returns.  Where the version is absent or a number (the
  data model has it an integer; Python also compares a boolean) the exception is the
  one of the invalid configuration and names the first field that fails, in the order
  type, version, actions; for a version of another JSON type the comparison itself
  raises, before any field is judged.
\<close>

theorem validation_precedes_skip:
  assumes "read_file fs (abspath (getcwd E) (join path config)) = Inr text"
      and "json_loads E (universal_newlines text) = Some (JObj cfg)"
      and "jget cfg ''skip'' = Some (JBool True)"
  shows "(jget cfg ''type'' \<noteq> Some (JStr typestr) \<or> version_in_range cfg \<noteq> Inr True
          \<or> (\<forall>xs. jget cfg ''actions'' \<noteq> Some (JList xs)) \<longrightarrow>
            (\<exists>e. execute E fs repo_link commit path config = (fs, Inl e)))
       \<and> (\<forall>in_range. version_in_range cfg = Inr in_range
            \<and> (jget cfg ''type'' \<noteq> Some (JStr typestr) \<or> \<not> in_range
               \<or> (\<forall>xs. jget cfg ''actions'' \<noteq> Some (JList xs))) \<longrightarrow>
            execute E fs repo_link commit path config =
              (fs, Inl (InvalidConfig
                 (if jget cfg ''type'' \<noteq> Some (JStr typestr) then ''type''
                  else if \<not> in_range then ''version'' else ''actions''))))"
proof -
  have e: "execute E fs repo_link commit path config = execute_cfg E fs repo_link commit path (JObj cfg)"
    using execute_parsed [OF assms(1,2)] .
  have acts: "(case jget cfg ''actions'' of Some (JList xs) \<Rightarrow> True | _ \<Rightarrow> False)
       = (\<exists>xs. jget cfg ''actions'' = Some (JList xs))"
    by (auto split: option.splits json.splits)
  have 2: "execute E fs repo_link commit path config =
              (fs, Inl (InvalidConfig
                 (if jget cfg ''type'' \<noteq> Some (JStr typestr) then ''type''
                  else if \<not> in_range then ''version'' else ''actions'')))"
    if "version_in_range cfg = Inr in_range"
      and "jget cfg ''type'' \<noteq> Some (JStr typestr) \<or> \<not> in_range
               \<or> (\<forall>xs. jget cfg ''actions'' \<noteq> Some (JList xs))"
    for in_range
    using that acts by (auto simp: e execute_cfg_def on_ok_def sanity_checks_def)
  have 1: "\<exists>e. execute E fs repo_link commit path config = (fs, Inl e)"
    if "jget cfg ''type'' \<noteq> Some (JStr typestr) \<or> version_in_range cfg \<noteq> Inr True
          \<or> (\<forall>xs. jget cfg ''actions'' \<noteq> Some (JList xs))"
  proof (cases "version_in_range cfg")
    case (Inl err)
    then show ?thesis by (simp add: e execute_cfg_def on_ok_def sanity_checks_def)
  next
    case (Inr in_range)
    with that have "jget cfg ''type'' \<noteq> Some (JStr typestr) \<or> \<not> in_range
               \<or> (\<forall>xs. jget cfg ''actions'' \<noteq> Some (JList xs))" by auto
    from 2 [OF Inr this] show ?thesis by blast
  qed
  from 1 2 show ?thesis by blast
qed

theorem skip_runs_no_action_witness:
  "execute skip_env
       (fs0 @ [(''/srv/github_deploy_repo__tmp'', Dir),
               (''/srv/github_deploy_repo__tmp/deploy.json'', File skip_text),
               (''/srv/github_deploy_repo__tmp/a.js'', File ''x'')])
       ''https://github.com/acme/site'' (Some ''c0ffee'') tmpdir ''deploy.json'' =
     (fs0 @ [(''/srv/github_deploy_repo__tmp'', Dir),
             (''/srv/github_deploy_repo__tmp/deploy.json'', File skip_text),
             (''/srv/github_deploy_repo__tmp/a.js'', File ''x'')], Inr ())
   \<and> deploy_repo skip_env world0 ''acme'' ''site'' =
       (\<lparr>files = fs0,
         table = (\<lambda>repo. None)(''acme/site'' \<mapsto>
                   \<lparr>commit_hash = ''c0ffee'', datetime = 0, status_code = 1\<rparr>)\<rparr>,
        Inr ())
   \<and> map_of (files (fst (deploy_repo skip_env world0 ''acme'' ''site'')))
        ''/srv/github_deploy_repo__tmp/a.js'' = None"
proof -
  let ?fs1 = "fs0 @ [(''/srv/github_deploy_repo__tmp'', Dir)]"
  let ?fs2 = "fs0 @ [(''/srv/github_deploy_repo__tmp'', Dir),
               (''/srv/github_deploy_repo__tmp/deploy.json'', File skip_text),
               (''/srv/github_deploy_repo__tmp/a.js'', File ''x'')]"
  let ?root = "abspath (getcwd skip_env) tmpdir"
  have 1: "jget skip_cfg ''type'' = Some (JStr typestr)"
    by (simp add: skip_cfg_def jget_def typestr_def)
  have 2: "version_in_range skip_cfg = Inr True"
    by (simp add: skip_cfg_def jget_def version_in_range_def v_min_def v_max_def)
  have 3: "jget skip_cfg ''actions'' =
     Some (JList [JObj [(''type'', JStr ''move''), (''src'', JStr ''a.js''),
                    (''dst'', JStr ''/srv/www/a.js'')]])"
    by (simp add: skip_cfg_def jget_def)
  have 4: "[JObj [(''type'', JStr ''move''), (''src'', JStr ''a.js''),
                    (''dst'', JStr ''/srv/www/a.js'')]] \<noteq> []" by simp
  have 5: "jget skip_cfg ''skip'' = Some (JBool True)"
    by (simp add: skip_cfg_def jget_def)
  have u: "universal_newlines skip_text = skip_text"
    by (simp add: skip_text_def)
  have 6: "json_loads skip_env (universal_newlines skip_text) = Some (JObj skip_cfg)"
    by (simp add: u skip_env_def env0_def)
  have cwd: "getcwd skip_env = ''/srv''" by (simp add: skip_env_def env0_def)
  have r: "read_file ?fs2 (abspath (getcwd skip_env) (join tmpdir ''deploy.json'')) = Inr skip_text"
    by (simp add: cwd run_defs deploy_defs path_defs fs_defs Let_def)
  have m: "os_mkdir (files world0) ?root = Inr ?fs1"
    by (simp add: cwd run_defs deploy_defs path_defs fs_defs Let_def)
  have f: "fetch skip_env ''acme'' ''site'' ?fs1 = (?fs2, Some ''c0ffee'', None)"
    by (simp add: skip_env_def run_defs)
  have d: "map_of ?fs2 ?root = Some Dir"
    by (simp add: cwd run_defs deploy_defs path_defs fs_defs Let_def)
  have n: "rmtree_fault skip_env ?root ?fs2 = None"
    by (simp add: skip_env_def env0_def)
  have b: "below ?root ''/srv/github_deploy_repo__tmp/a.js''"
    by (simp add: cwd deploy_defs path_defs Let_def)
  have rm: "shutil_rmtree skip_env ?fs2 ?root = (fs0, Inr ())"
    by (simp add: skip_env_def run_defs deploy_defs path_defs fs_defs Let_def)
  have tb: "set_repo_status skip_env (table world0) ''acme'' ''site'' (Some ''c0ffee'') 1 =
      (\<lambda>repo. None)(''acme/site'' \<mapsto> \<lparr>commit_hash = ''c0ffee'', datetime = 0, status_code = 1\<rparr>)"
    by (simp add: skip_env_def run_defs deploy_defs)
  note T = skip_runs_no_action [OF 1 2 3 4 5 6, where fs = ?fs2 and path = tmpdir
        and config = "''deploy.json''" and repo_link = "''https://github.com/acme/site''"
        and commit = "Some ''c0ffee''" and w = world0 and ?fs1.0 = ?fs1 and owner = "''acme''"
        and name = "''site''" and ?fs2.0 = ?fs2]
  from T [THEN conjunct1] r
  have A: "execute skip_env ?fs2 ''https://github.com/acme/site'' (Some ''c0ffee'') tmpdir
             ''deploy.json'' = (?fs2, Inr ())"
    by (rule mp)
  from m f r have "os_mkdir (files world0) ?root = Inr ?fs1
          \<and> fetch skip_env ''acme'' ''site'' ?fs1 = (?fs2, Some ''c0ffee'', None)
          \<and> read_file ?fs2 (abspath (getcwd skip_env) (join tmpdir ''deploy.json'')) = Inr skip_text"
    by (intro conjI)
  from T [THEN conjunct2, THEN mp, OF this]
  have B: "deploy_repo skip_env world0 ''acme'' ''site'' =
              (\<lparr>files = fst (shutil_rmtree skip_env ?fs2 ?root),
                table = set_repo_status skip_env (table world0) ''acme'' ''site'' (Some ''c0ffee'') 1\<rparr>,
               snd (shutil_rmtree skip_env ?fs2 ?root))"
    and C: "map_of ?fs2 ?root = Some Dir \<and> rmtree_fault skip_env ?root ?fs2 = None \<longrightarrow>
                 snd (deploy_repo skip_env world0 ''acme'' ''site'') = Inr ()
                 \<and> (\<forall>p. below ?root p \<longrightarrow>
                       map_of (files (fst (deploy_repo skip_env world0 ''acme'' ''site''))) p = None)"
    by (rule conjunct1, rule conjunct2)
  from C d n b
  have D: "map_of (files (fst (deploy_repo skip_env world0 ''acme'' ''site'')))
        ''/srv/github_deploy_repo__tmp/a.js'' = None"
    by blast
  from B have B': "deploy_repo skip_env world0 ''acme'' ''site'' =
       (\<lparr>files = fs0,
         table = (\<lambda>repo. None)(''acme/site'' \<mapsto>
                   \<lparr>commit_hash = ''c0ffee'', datetime = 0, status_code = 1\<rparr>)\<rparr>,
        Inr ())"
    by (simp only: rm tb fst_conv snd_conv)
  from A B' D show ?thesis by (intro conjI)
qed

theorem validation_precedes_skip_witness:
  "execute v2_env v2_fs ''https://github.com/acme/site'' (Some ''c0ffee'') tmpdir ''deploy.json''
     = (v2_fs, Inl (InvalidConfig ''version''))"
proof -
  have u: "universal_newlines v2_text = v2_text"
    by (simp add: v2_text_def)
  have cwd: "getcwd v2_env = ''/srv''" by (simp add: v2_env_def env0_def)
  have r: "read_file v2_fs (abspath (getcwd v2_env) (join tmpdir ''deploy.json'')) = Inr v2_text"
    by (simp add: cwd v2_fs_def run_defs deploy_defs path_defs fs_defs Let_def)
  have j: "json_loads v2_env (universal_newlines v2_text) = Some (JObj v2_cfg)"
    by (simp add: u v2_env_def env0_def)
  have s: "jget v2_cfg ''skip'' = Some (JBool True)"
    by (simp add: v2_cfg_def jget_def)
  have v: "version_in_range v2_cfg = Inr False"
    by (simp add: v2_cfg_def jget_def version_in_range_def v_min_def v_max_def)
  have t: "jget v2_cfg ''type'' = Some (JStr typestr)"
    by (simp add: v2_cfg_def jget_def typestr_def)
  from validation_precedes_skip [OF r j s, of "''https://github.com/acme/site''" "Some ''c0ffee''"] v t
  show ?thesis by auto
qed

subsection \<open>The actions\<close>

lemma makedirs_upto_numeral:
  "makedirs_upto (numeral k) fs name exist_ok = makedirs_upto (Suc (pred_numeral k)) fs name exist_ok"
  by (simp add: numeral_eq_Suc)

lemmas action_defs = action_import_def row_file_def shared_file_def row_str_def jget_def
  on_ok_def fs_step_def os_makedirs_def os_symlink_def get_file_def get_substituted_path_def

text \<open>
  C5 (the second \<^verbatim>\<open>import\<close> fails on a link whose target is missing).  Nothing has been
  exported under the name yet.  The first \<^verbatim>\<open>import\<close> creates the directory and the link
  \<^verbatim>\<open>/srv/www/lib.js\<close> to \<^verbatim>\<open>/srv/exports/lib.js\<close>.  The second, with the same arguments, finds
  that \<^verbatim>\<open>os.path.exists\<close> is false for the link, since it follows it, calls \<^verbatim>\<open>os.symlink\<close>
  again and raises \<^verbatim>\<open>FileExistsError\<close>.
\<close>

theorem import_twice_fails:
  "action_import env0 import_fs ''https://github.com/acme/site'' (Some ''c0ffee'') tmpdir
       import_row (JObj []) =
     (import_fs @ [(''/srv/www'', Dir), (''/srv/www/lib.js'', Link ''/srv/exports/lib.js'')],
      Inr ())
   \<and> action_import env0
       (import_fs @ [(''/srv/www'', Dir), (''/srv/www/lib.js'', Link ''/srv/exports/lib.js'')])
       ''https://github.com/acme/site'' (Some ''c0ffee'') tmpdir import_row (JObj []) =
     (import_fs @ [(''/srv/www'', Dir), (''/srv/www/lib.js'', Link ''/srv/exports/lib.js'')],
      Inl (FileExistsError ''/srv/www/lib.js''))"
  by (simp add: import_fs_def import_row_def run_defs action_defs tmpdir_def path_defs fs_defs
        makedirs_upto_numeral Let_def)

subsection \<open>Header comments\<close>

lemma map_of_store: "map_of (store q n fs) p = (if p = q then Some n else map_of fs p)"
  by (induction fs) auto

lemma follow_store:
  assumes "\<forall>t. map_of fs q \<noteq> Some (Link t)" and "\<forall>t. n \<noteq> Link t"
  shows "follow k (store q n fs) p = follow k fs p"
  using assms
  by (induction k arbitrary: p) (auto simp: map_of_store split: option.splits node.splits)

lemma follow_end: "follow k fs p = Some q \<Longrightarrow> \<forall>t. map_of fs q \<noteq> Some (Link t)"
  by (induction k arbitrary: p) (auto split: option.splits node.splits)

lemma write_file_cases:
  assumes "write_file fs p x = Inr fs1"
  obtains q where "follow 40 fs p = Some q" and "map_of fs q \<noteq> Some Dir"
    and "path_isdir fs (fst (path_split q))" and "fs1 = store q (File x) fs"
  using assms
  by (auto simp: write_file_def split: option.splits node.splits if_splits)

lemma path_isdir_store:
  assumes "\<forall>t. map_of fs q \<noteq> Some (Link t)" and "map_of fs q \<noteq> Some Dir"
      and "path_isdir fs d"
  shows "path_isdir (store q (File x) fs) d"
proof -
  have f: "follow 40 (store q (File x) fs) d = follow 40 fs d"
    using assms(1) by (intro follow_store) auto
  show ?thesis
    using assms(2,3)
    by (auto simp: path_isdir_def stat_def f map_of_store split: option.splits node.splits)
qed

lemma write_then_read:
  assumes "write_file fs p x = Inr fs1"
  shows "read_file fs1 p = Inr x"
proof -
  from assms obtain q where q: "follow 40 fs p = Some q" "fs1 = store q (File x) fs"
    by (rule write_file_cases)
  have "follow 40 fs1 p = Some q"
    using follow_end [OF q(1)] q by (simp add: follow_store)
  then show ?thesis by (simp add: read_file_def stat_def q(2) map_of_store)
qed

lemma write_again:
  assumes "write_file fs p x = Inr fs1"
  shows "write_file fs1 p y = Inr (store (the (follow 40 fs p)) (File y) fs1)"
proof -
  from assms obtain q where q: "follow 40 fs p = Some q" "map_of fs q \<noteq> Some Dir"
    "path_isdir fs (fst (path_split q))" "fs1 = store q (File x) fs"
    by (rule write_file_cases)
  have l: "\<forall>t. map_of fs q \<noteq> Some (Link t)" by (rule follow_end [OF q(1)])
  have f: "follow 40 fs1 p = Some q"
    using l q by (simp add: follow_store)
  have d: "path_isdir fs1 (fst (path_split q))"
    unfolding q(4) by (rule path_isdir_store [OF l q(2,3)])
  show ?thesis
    by (simp add: write_file_def f d q(1)) (simp add: q(4) map_of_store)
qed

lemma write_header_content:
  assumes "write_file fs (absname (get_file_plain (getcwd E) (absname src @ ''__header'') None))
             (pre_block @ banner E repo_link commit pre_line post_line @ post_block) = Inr fs1"
      and "read_file fs1 (absname src) = Inr original"
  shows "snd (write_header E fs repo_link commit src pre_block post_block pre_line post_line)
           = Inr (get_file_plain (getcwd E) (absname src @ ''__header'') None)"
    and "read_file
           (fst (write_header E fs repo_link commit src pre_block post_block pre_line post_line))
           (absname (get_file_plain (getcwd E) (absname src @ ''__header'') None))
         = Inr (pre_block @ banner E repo_link commit pre_line post_line @ post_block @ original)"
proof -
  let ?tmp = "absname (get_file_plain (getcwd E) (absname src @ ''__header'') None)"
  let ?head = "pre_block @ banner E repo_link commit pre_line post_line @ post_block"
  let ?fs2 = "store (the (follow 40 fs ?tmp)) (File (?head @ original)) fs1"
  have w2: "write_file fs1 ?tmp (?head @ original) = Inr ?fs2"
    by (rule write_again [OF assms(1)])
  have r: "write_header E fs repo_link commit src pre_block post_block pre_line post_line
      = (?fs2, Inr (get_file_plain (getcwd E) (absname src @ ''__header'') None))"
    using assms w2
    by (simp add: write_header_def banner_def Let_def on_ok_def fs_step_def)
  show "snd (write_header E fs repo_link commit src pre_block post_block pre_line post_line)
           = Inr (get_file_plain (getcwd E) (absname src @ ''__header'') None)"
    by (simp add: r)
  show "read_file
           (fst (write_header E fs repo_link commit src pre_block post_block pre_line post_line))
           ?tmp
         = Inr (pre_block @ banner E repo_link commit pre_line post_line @ post_block @ original)"
    using write_then_read [OF w2] by (simp add: r)
qed

lemma php_contains: "contains ''php'' ''php''" by simp

lemma add_header_wrapper:
  assumes "comment_wrapper (lower dst_ext) = Some (pre_block, post_block, pre_line, post_line)"
  shows "add_header E fs repo_link commit src dst_ext =
           write_header E fs repo_link commit src pre_block post_block pre_line post_line"
  using assms
  by (auto simp: add_header_def comment_wrapper_def blanks_def Let_def split: if_splits)

lemma add_header_unsupported:
  assumes "comment_wrapper (lower dst_ext) = None" and "\<not> contains ''php'' (lower dst_ext)"
  shows "add_header E fs repo_link commit src dst_ext = (fs, Inr src)"
  using assms
  by (auto simp: add_header_def comment_wrapper_def Let_def split: if_splits)

text \<open>
  C6, as amended (header injection).  For a destination extension whose lower case has a
  wrapper in the specification's table (js, min.js, css, c, cpp, h, hpp, java, html, xml,
  py, r, coffee, htaccess, php), where the new file can be written and the source read,
  \<^verbatim>\<open>add_header\<close> returns the new file \<^verbatim>\<open>\<dots>__header\<close>, and its content is the wrapper's
  prefix, the banner and metadata lines, the wrapper's suffix, and then the original
  content.  For an extension whose lower case has no wrapper and does not occur inside
  \<^verbatim>\<open>php\<close>, \<^verbatim>\<open>add_header\<close> returns the source itself, changes nothing and raises nothing.
\<close>

theorem add_header_content:
  "(comment_wrapper (lower dst_ext) = Some (pre_block, post_block, pre_line, post_line)
    \<and> write_file fs (absname (get_file_plain (getcwd E) (absname src @ ''__header'') None))
         (pre_block @ banner E repo_link commit pre_line post_line @ post_block) = Inr fs1
    \<and> read_file fs1 (absname src) = Inr original \<longrightarrow>
      snd (add_header E fs repo_link commit src dst_ext)
        = Inr (get_file_plain (getcwd E) (absname src @ ''__header'') None)
      \<and> read_file (fst (add_header E fs repo_link commit src dst_ext))
           (absname (get_file_plain (getcwd E) (absname src @ ''__header'') None))
        = Inr (pre_block @ banner E repo_link commit pre_line post_line @ post_block @ original))
   \<and> (comment_wrapper (lower dst_ext) = None \<and> \<not> contains ''php'' (lower dst_ext) \<longrightarrow>
      add_header E fs repo_link commit src dst_ext = (fs, Inr src))"
  using add_header_wrapper [of dst_ext pre_block post_block pre_line post_line E fs repo_link commit src]
    write_header_content [of fs E src pre_block repo_link commit pre_line post_line post_block fs1 original]
    add_header_unsupported [of dst_ext E fs repo_link commit src]
  by auto

lemma app_js_header:
  "get_file_plain (getcwd env0) (absname app_js @ ''__header'') None =
     \<lparr>absname = ''/srv/github_deploy_repo__tmp/app.js__header'',
      dirname = ''/srv/github_deploy_repo__tmp'',
      basename = ''app.js__header'', ext = ''js__header''\<rparr>"
  by (simp add: app_js_def env0_def path_defs Let_def)

lemma app_js_write:
  "write_file header_fs ''/srv/github_deploy_repo__tmp/app.js__header'' content =
     Inr (header_fs @ [(''/srv/github_deploy_repo__tmp/app.js__header'', File content)])"
  by (simp add: header_fs_def fs0_def path_defs fs_defs Let_def)

lemma app_js_read:
  "read_file (header_fs @ [(''/srv/github_deploy_repo__tmp/app.js__header'', File content)])
     (absname app_js) = Inr ''x''"
  by (simp add: app_js_def header_fs_def fs0_def path_defs fs_defs Let_def)

lemma js_wrapper:
  "comment_wrapper (lower ''js'') =
     Some (''/*'' @ [newline], ''*/'' @ [newline, newline, newline, newline], [], [])"
  by (simp add: comment_wrapper_def lower_def lower_char_def)

lemma txt_wrapper: "comment_wrapper (lower ''txt'') = None \<and> \<not> contains ''php'' (lower ''txt'')"
  by (simp add: comment_wrapper_def lower_def lower_char_def)

theorem add_header_content_witness:
  "read_file (fst (add_header env0 header_fs ''https://github.com/acme/site'' (Some ''c0ffee'')
                     app_js ''js''))
       ''/srv/github_deploy_repo__tmp/app.js__header''
     = Inr ((''/*'' @ [newline])
            @ banner env0 ''https://github.com/acme/site'' (Some ''c0ffee'') [] []
            @ (''*/'' @ [newline, newline, newline, newline]) @ ''x'')
   \<and> add_header env0 header_fs ''https://github.com/acme/site'' (Some ''c0ffee'') app_js ''txt''
     = (header_fs, Inr app_js)"
proof -
  note T = add_header_content [where E = env0 and fs = header_fs and src = app_js
      and repo_link = "''https://github.com/acme/site''" and commit = "Some ''c0ffee''"
      and original = "''x''"]
  have "comment_wrapper (lower ''js'') =
          Some (''/*'' @ [newline], ''*/'' @ [newline, newline, newline, newline], [], [])
      \<and> write_file header_fs
           (absname (get_file_plain (getcwd env0) (absname app_js @ ''__header'') None))
           ((''/*'' @ [newline])
            @ banner env0 ''https://github.com/acme/site'' (Some ''c0ffee'') [] []
            @ (''*/'' @ [newline, newline, newline, newline]))
          = Inr (header_fs @ [(''/srv/github_deploy_repo__tmp/app.js__header'',
                  File ((''/*'' @ [newline])
            @ banner env0 ''https://github.com/acme/site'' (Some ''c0ffee'') [] []
            @ (''*/'' @ [newline, newline, newline, newline])))])
      \<and> read_file (header_fs @ [(''/srv/github_deploy_repo__tmp/app.js__header'',
                  File ((''/*'' @ [newline])
            @ banner env0 ''https://github.com/acme/site'' (Some ''c0ffee'') [] []
            @ (''*/'' @ [newline, newline, newline, newline])))]) (absname app_js) = Inr ''x''"
    by (simp only: js_wrapper app_js_header app_js_write app_js_read fileinfo.simps simp_thms)
  from T [where dst_ext = "''js''", THEN conjunct1, THEN mp, OF this, THEN conjunct2]
  have 1: "read_file (fst (add_header env0 header_fs ''https://github.com/acme/site''
                     (Some ''c0ffee'') app_js ''js''))
       ''/srv/github_deploy_repo__tmp/app.js__header''
     = Inr ((''/*'' @ [newline])
            @ banner env0 ''https://github.com/acme/site'' (Some ''c0ffee'') [] []
            @ (''*/'' @ [newline, newline, newline, newline]) @ ''x'')"
    by (simp only: app_js_header fileinfo.simps)
  from T [where dst_ext = "''txt''", THEN conjunct2, THEN mp, OF txt_wrapper]
  have 2: "add_header env0 header_fs ''https://github.com/acme/site'' (Some ''c0ffee'') app_js
             ''txt'' = (header_fs, Inr app_js)" .
  from 1 2 show ?thesis by (intro conjI)
qed

text \<open>
  The claim as stated fails: for \<^verbatim>\<open>app.js\<close> of content \<^verbatim>\<open>x\<close> the file produced ends with
  the original content, after the wrapper's suffix, and is not the prefix, the lines, the
  content and then the suffix.
\<close>

theorem header_suffix_before_content:
  "read_file (fst (add_header env0 header_fs ''https://github.com/acme/site'' (Some ''c0ffee'')
                     app_js ''js''))
       ''/srv/github_deploy_repo__tmp/app.js__header''
     = Inr ((''/*'' @ [newline])
            @ banner env0 ''https://github.com/acme/site'' (Some ''c0ffee'') [] []
            @ (''*/'' @ [newline, newline, newline, newline]) @ ''x'')
   \<and> read_file (fst (add_header env0 header_fs ''https://github.com/acme/site'' (Some ''c0ffee'')
                     app_js ''js''))
       ''/srv/github_deploy_repo__tmp/app.js__header''
     \<noteq> Inr ((''/*'' @ [newline])
            @ banner env0 ''https://github.com/acme/site'' (Some ''c0ffee'') [] []
            @ ''x'' @ (''*/'' @ [newline, newline, newline, newline]))"
proof -
  have w: "add_header env0 header_fs ''https://github.com/acme/site'' (Some ''c0ffee'') app_js ''js''
     = write_header env0 header_fs ''https://github.com/acme/site'' (Some ''c0ffee'') app_js
         (''/*'' @ [newline]) (''*/'' @ [newline, newline, newline, newline]) [] []"
    by (rule add_header_wrapper [OF js_wrapper])
  have h: "write_file header_fs
           (absname (get_file_plain (getcwd env0) (absname app_js @ ''__header'') None))
           ((''/*'' @ [newline])
            @ banner env0 ''https://github.com/acme/site'' (Some ''c0ffee'') [] []
            @ (''*/'' @ [newline, newline, newline, newline]))
          = Inr (header_fs @ [(''/srv/github_deploy_repo__tmp/app.js__header'',
                  File ((''/*'' @ [newline])
            @ banner env0 ''https://github.com/acme/site'' (Some ''c0ffee'') [] []
            @ (''*/'' @ [newline, newline, newline, newline])))])"
    by (simp only: app_js_header app_js_write fileinfo.simps)
  have 1: "read_file (fst (add_header env0 header_fs ''https://github.com/acme/site''
                     (Some ''c0ffee'') app_js ''js''))
       ''/srv/github_deploy_repo__tmp/app.js__header''
     = Inr ((''/*'' @ [newline])
            @ banner env0 ''https://github.com/acme/site'' (Some ''c0ffee'') [] []
            @ (''*/'' @ [newline, newline, newline, newline]) @ ''x'')"
    using write_header_content(2) [OF h app_js_read]
    by (simp only: w app_js_header fileinfo.simps)
  show ?thesis unfolding 1 by simp
qed

text \<open>
  The test \<^verbatim>\<open>ext in ('php')\<close> is a test for a substring: a destination with no extension
  gets the PHP wrapper.
\<close>

lemma add_header_no_extension:
  "add_header E fs repo_link commit src [] =
     write_header E fs repo_link commit src
       (''<?php /*'' @ [newline]) (''*/'' @ [newline] @ blanks @ ''?>'') [] []"
  by (simp add: add_header_def lower_def)

subsection \<open>The last component of a resolved name\<close>

lemma split_on_nonempty: "split_on sep s \<noteq> []"
  by (induction s) (auto split: list.splits)

lemma split_on_single: "sep \<notin> set n \<Longrightarrow> split_on sep n = [n]"
  by (induction n) auto

lemma split_on_append: "split_on sep (a @ sep # b) = split_on sep a @ split_on sep b"
  by (induction a) (auto simp: split_on_nonempty split: list.splits)

lemma norm_comps_append:
  "norm_comps rooted new (ps @ qs) = norm_comps rooted (norm_comps rooted new ps) qs"
  by (induction ps arbitrary: new) auto

lemma sep_join_snoc:
  "sep_join sep (xs @ [n]) = (if xs = [] then n else sep_join sep xs @ sep @ n)"
  by (induction sep xs rule: sep_join.induct) auto

lemma startswith_prefix: "startswith s p = (take (length p) s = p)"
  by (induction s p rule: startswith.induct) auto

lemma endswith_slash: "endswith a ''/'' = (a \<noteq> [] \<and> last a = slash)"
  by (cases a rule: rev_cases) (auto simp: endswith_def)

lemma join_last:
  assumes "proper n" and "ends_dir x"
  shows "\<exists>y. ends_dir y \<and> join a (x @ n) = y @ n"
proof (cases "startswith (x @ n) ''/''")
  case True
  then have "join a (x @ n) = x @ n" by (simp add: join_def)
  with assms(2) show ?thesis by blast
next
  case False
  show ?thesis
  proof (cases "a = [] \<or> endswith a ''/''")
    case True
    with False have j: "join a (x @ n) = (a @ x) @ n" by (simp add: join_def)
    have "ends_dir (a @ x)"
      using True assms(2) by (cases "x = []") (auto simp: ends_dir_def endswith_slash)
    with j show ?thesis by blast
  next
    case F2: False
    with False have j: "join a (x @ n) = (a @ ''/'' @ x) @ n" by (simp add: join_def)
    have "ends_dir (a @ ''/'' @ x)"
      using assms(2) by (auto simp: ends_dir_def)
    with j show ?thesis by blast
  qed
qed

lemma norm_comps_proper:
  assumes "proper n"
  shows "norm_comps rooted new [n] = new @ [n]"
  using assms by (auto simp: proper_def)

lemma split_on_ends_dir:
  assumes "slash \<notin> set n" and "ends_dir y"
  shows "\<exists>ps. split_on slash (y @ n) = ps @ [n]"
proof (cases "y = []")
  case True
  then show ?thesis using assms(1) by (simp add: split_on_single)
next
  case False
  with assms(2) obtain y' where y: "y = y' @ [slash]"
    by (metis append_butlast_last_id ends_dir_def)
  have "split_on slash (y @ n) = split_on slash y' @ [n]"
    using split_on_append [of slash y' n] assms(1) by (simp add: y split_on_single)
  then show ?thesis by blast
qed

lemma normpath_last:
  assumes "proper n" and "ends_dir y"
  shows "\<exists>z. ends_dir z \<and> normpath (y @ n) = z @ n"
proof -
  from assms have ne: "y @ n \<noteq> []" by (simp add: proper_def)
  from assms obtain ps where ps: "split_on slash (y @ n) = ps @ [n]"
    using split_on_ends_dir [of n y] by (auto simp: proper_def)
  let ?k = "initial_slashes (y @ n)"
  let ?acc = "norm_comps (?k \<noteq> 0) [] ps"
  have c: "norm_comps (?k \<noteq> 0) [] (split_on slash (y @ n)) = ?acc @ [n]"
    by (simp only: ps norm_comps_append norm_comps_proper [OF assms(1)])
  let ?z = "replicate ?k slash @ (if ?acc = [] then [] else sep_join ''/'' ?acc @ ''/'')"
  have p: "replicate ?k slash @ sep_join ''/'' (?acc @ [n]) = ?z @ n"
    by (simp add: sep_join_snoc)
  have z: "ends_dir ?z"
    by (cases "?k") (auto simp: ends_dir_def)
  from ne have ne': "(y @ n = []) = False" by simp
  have nz: "(?z @ n = []) = False" using assms(1) by (simp add: proper_def)
  have "normpath (y @ n) =
      (if replicate ?k slash @ sep_join ''/'' (?acc @ [n]) = [] then ''.''
       else replicate ?k slash @ sep_join ''/'' (?acc @ [n]))"
    by (simp only: normpath_def Let_def c ne' if_False)
  also have "\<dots> = ?z @ n"
    by (simp only: p nz if_False)
  finally have "normpath (y @ n) = ?z @ n" .
  with z show ?thesis by blast
qed

lemma abspath_last:
  assumes "proper n" and "ends_dir x"
  shows "\<exists>z. ends_dir z \<and> abspath wd (x @ n) = z @ n"
proof (cases "isabs (x @ n)")
  case True
  then show ?thesis using normpath_last [OF assms] by (simp add: abspath_def)
next
  case False
  from join_last [OF assms] obtain y where y: "ends_dir y" "join wd (x @ n) = y @ n" by blast
  from normpath_last [OF assms(1) y(1)] show ?thesis using False by (simp add: abspath_def y(2))
qed

lemma path_split_last:
  assumes "slash \<notin> set n" and "ends_dir z"
  shows "snd (path_split (z @ n)) = n"
proof -
  have "takeWhile (\<lambda>c. c \<noteq> slash) (rev n @ rev z) = rev n"
  proof (cases "z = []")
    case True
    then show ?thesis using assms(1) by auto
  next
    case False
    with assms(2) obtain z' where "z = z' @ [slash]"
      by (metis append_butlast_last_id ends_dir_def)
    then show ?thesis using assms(1) by (auto simp: takeWhile_tail)
  qed
  then show ?thesis by (simp add: path_split_def Let_def)
qed

lemma basename_get_file:
  assumes "proper n" and "ends_dir x"
  shows "basename (get_file_plain wd (x @ n) None) = n"
proof -
  from abspath_last [OF assms] obtain z where z: "ends_dir z" "abspath wd (x @ n) = z @ n"
    by blast
  have "snd (path_split (z @ n)) = n"
    using assms(1) z(1) by (intro path_split_last) (simp_all add: proper_def)
  then show ?thesis
    by (cases "path_split (z @ n)") (simp add: get_file_plain_def Let_def z(2))
qed

lemma basename_join:
  assumes "proper n"
  shows "basename (get_file_plain wd (join d n) None) = n"
proof -
  have "ends_dir []" by (simp add: ends_dir_def)
  from join_last [OF assms this, of d] obtain y where "ends_dir y" "join d n = y @ n" by auto
  then show ?thesis using basename_get_file [OF assms, of y wd] by simp
qed

subsection \<open>The files a pattern selects\<close>

lemma child_name_shape: "child_name q p = Some n \<Longrightarrow> n \<noteq> [] \<and> slash \<notin> set n"
  by (auto simp: child_name_def Let_def split: if_splits)

lemma in_map_filter: "n \<in> set (List.map_filter f xs) \<Longrightarrow> \<exists>x \<in> set xs. f x = Some n"
  by (auto simp: List.map_filter_def)

lemma os_listdir_shape:
  assumes "n \<in> set (os_listdir fs d)"
  shows "n \<noteq> [] \<and> slash \<notin> set n"
proof -
  from assms obtain q where "n \<in> set (List.map_filter (\<lambda>(p, n). child_name q p) fs)"
    by (auto simp: os_listdir_def split: option.splits node.splits)
  from in_map_filter [OF this] obtain p where "child_name q p = Some n"
    by auto
  then show ?thesis by (rule child_name_shape)
qed

lemma shown_proper:
  assumes "n \<noteq> [] \<and> slash \<notin> set n" and "\<not> ishidden n"
  shows "proper n"
  using assms by (auto simp: proper_def ishidden_def)

lemma glob_star_shape:
  assumes "name \<in> set (glob_star E fs d)"
  shows "\<exists>dir n. name = join dir n \<and> proper n \<and> \<not> ishidden n"
  using assms
  by (auto simp: glob_star_def Let_def dest!: os_listdir_shape intro!: shown_proper)

lemma select_matches_shape:
  assumes "select_matches E pat dst0 names = Inr ts" and "(s, d) \<in> set ts"
  shows "\<exists>name \<in> set names. s = get_file_plain (getcwd E) name None
           \<and> d = get_file_plain (getcwd E) (join dst0 (basename s)) None"
  using assms
proof (induction names arbitrary: ts)
  case Nil
  then show ?case by simp
next
  case (Cons name names)
  then show ?case
    by (auto simp: Let_def split: json.splits option.splits sum.splits if_splits)
qed

lemma basename_is_last:
  "basename (get_file_plain wd name path) = snd (path_split (absname (get_file_plain wd name path)))"
  by (cases "path_split (abspath wd (case path of None \<Rightarrow> name | Some p \<Rightarrow> join p name))")
     (simp add: get_file_plain_def Let_def)

text \<open>
  C10 (hidden files).  For a \<^verbatim>\<open>copy\<close> or \<^verbatim>\<open>move\<close> row with \<^verbatim>\<open>match\<close>, whatever the pattern
  is, no file that the action applies to has a base name that begins with a dot: the
  base name of every source selected, which is the last component of its path, does not
  begin with a dot, and the destination has the same base name.  \<^verbatim>\<open>copymove\<close> calls
  \<^verbatim>\<open>copymove_single\<close> on the selected files and on no other.
\<close>

theorem hidden_files_never_selected:
  assumes "jget row ''match'' = Some pat"
      and "copymove_targets E fs path row substitutions = Inr targets"
  shows "\<forall>(src, dst) \<in> set targets.
           \<not> ishidden (basename src)
           \<and> basename src = snd (path_split (absname src))
           \<and> basename dst = basename src"
proof (clarify, intro conjI)
  fix src dst
  assume t: "(src, dst) \<in> set targets"
  from assms obtain dst0 src0 where
    sel: "select_matches E pat dst0 (glob_star E fs src0) = Inr targets"
    by (auto simp: copymove_targets_def split: sum.splits)
  from select_matches_shape [OF sel t] obtain name where
    name: "name \<in> set (glob_star E fs src0)" "src = get_file_plain (getcwd E) name None"
      "dst = get_file_plain (getcwd E) (join dst0 (basename src)) None"
    by blast
  from glob_star_shape [OF name(1)] obtain dir n where
    n: "name = join dir n" "proper n" "\<not> ishidden n" by blast
  have b: "basename src = n"
    by (simp add: name(2) n(1) basename_join [OF n(2)])
  show "\<not> ishidden (basename src)" by (simp add: b n(3))
  show "basename src = snd (path_split (absname src))"
    unfolding name(2) by (rule basename_is_last)
  show "basename dst = basename src"
    by (simp add: name(3) b basename_join [OF n(2)])
qed

lemma split_on_no_sep: "c \<in> set (split_on sep s) \<Longrightarrow> sep \<notin> set c"
proof (induction s arbitrary: c)
  case Nil
  then show ?case by simp
next
  case (Cons a s)
  then show ?case
    by (cases "split_on sep s") (auto split: if_splits)
qed

lemma norm_comps_clean:
  assumes "\<forall>c \<in> set new. c \<noteq> [] \<and> slash \<notin> set c"
      and "\<forall>c \<in> set parts. slash \<notin> set c"
  shows "\<forall>c \<in> set (norm_comps rooted new parts). c \<noteq> [] \<and> slash \<notin> set c"
  using assms
proof (induction parts arbitrary: new)
  case Nil
  then show ?case by simp
next
  case (Cons part parts)
  have b: "\<forall>c \<in> set (butlast new). c \<noteq> [] \<and> slash \<notin> set c"
    using Cons.prems(1) by (auto dest: in_set_butlastD)
  have a: "part \<noteq> [] \<Longrightarrow> \<forall>c \<in> set (new @ [part]). c \<noteq> [] \<and> slash \<notin> set c"
    using Cons.prems by auto
  have p: "\<forall>c \<in> set parts. slash \<notin> set c" using Cons.prems(2) by simp
  show ?case
    using Cons.IH [OF Cons.prems(1) p] Cons.IH [OF b p] Cons.IH [OF a p]
    by (simp del: set_append)
qed

lemma sep_join_last:
  assumes "cs \<noteq> []" and "last cs \<noteq> []"
  shows "sep_join sep cs \<noteq> [] \<and> last (sep_join sep cs) = last (last cs)"
  using assms by (induction sep cs rule: sep_join.induct) auto

text \<open>A path that \<^verbatim>\<open>normpath\<close> returns ends with a slash only when it is all slashes.\<close>

lemma normpath_shape:
  "normpath x \<noteq> [] \<and> (last (normpath x) = slash \<longrightarrow> set (normpath x) \<subseteq> {slash})"
proof (cases "x = []")
  case True
  then show ?thesis by (simp add: normpath_def)
next
  case False
  let ?k = "initial_slashes x"
  let ?cs = "norm_comps (?k \<noteq> 0) [] (split_on slash x)"
  let ?p = "replicate ?k slash @ sep_join ''/'' ?cs"
  have n: "normpath x = (if ?p = [] then ''.'' else ?p)"
    using False by (simp only: normpath_def Let_def if_False)
  have clean: "\<forall>c \<in> set ?cs. c \<noteq> [] \<and> slash \<notin> set c"
    by (rule norm_comps_clean) (auto dest: split_on_no_sep)
  show ?thesis
  proof (cases "?p = []")
    case True
    then show ?thesis by (simp only: n) simp
  next
    case p: False
    show ?thesis
    proof (cases "?cs = []")
      case True
      then show ?thesis using p by (simp only: n) auto
    next
      case cs: False
      then have l: "last ?cs \<noteq> [] \<and> slash \<notin> set (last ?cs)"
        using clean last_in_set by blast
      from sep_join_last [OF cs, of "''/''"] l
      have j: "sep_join ''/'' ?cs \<noteq> []" "last (sep_join ''/'' ?cs) = last (last ?cs)"
        by auto
      have "last ?p = last (last ?cs)" using j by simp
      moreover have "last (last ?cs) \<noteq> slash" using l last_in_set by metis
      ultimately have "last ?p \<noteq> slash" by simp
      then show ?thesis using p by (simp only: n if_False) simp
    qed
  qed
qed

lemma all_slashes: "set p \<subseteq> {slash} \<Longrightarrow> p = replicate (length p) slash"
  by (induction p) auto

text \<open>The directory \<^verbatim>\<open>glob\<close> lists for such a path joined to \<^verbatim>\<open>*\<close> is the path itself.\<close>

lemma glob_dir:
  assumes "p \<noteq> []" and "last p = slash \<longrightarrow> set p \<subseteq> {slash}"
  shows "fst (path_split (join p ''*'')) = p"
proof (cases "last p = slash")
  case True
  with assms have a: "p = replicate (length p) slash" by (simp add: all_slashes)
  from True assms(1) have j: "join p ''*'' = p @ ''*''"
    by (simp add: join_def endswith_slash)
  from True assms(1) have d: "dropWhile (\<lambda>c. c \<noteq> slash) (rev p) = rev p"
    by (cases p rule: rev_cases) auto
  show ?thesis
    using a assms(1) by (simp add: j path_split_def Let_def d)
next
  case False
  with assms(1) have j: "join p ''*'' = p @ ''/*''"
    by (simp add: join_def endswith_slash)
  from False assms(1) have d: "dropWhile (\<lambda>c. c = slash) (rev p) = rev p"
    by (cases p rule: rev_cases) auto
  have ns: "p @ ''/'' \<noteq> replicate (Suc (length p)) slash"
  proof
    assume "p @ ''/'' = replicate (Suc (length p)) slash"
    then have "set (p @ ''/'') \<subseteq> {slash}" by (metis set_replicate_conv_if subset_insertI2 subset_refl empty_subsetI)
    then have "last p = slash" using assms(1) by (cases p rule: rev_cases) auto
    with False show False by simp
  qed
  show ?thesis
    using ns by (simp add: j path_split_def Let_def d)
qed

lemma select_matches_ok:
  assumes "re_compile E p = Some r"
  shows "select_matches E (JStr p) dst0 names =
           Inr (map (\<lambda>name. (get_file_plain (getcwd E) name None,
                              get_file_plain (getcwd E)
                                (join dst0 (basename (get_file_plain (getcwd E) name None))) None))
                  (filter (\<lambda>name. re_match r (basename (get_file_plain (getcwd E) name None)))
                     names))"
  using assms by (induction names) (simp_all add: Let_def)

lemma row_file_normal:
  assumes "row_file E path row k substitutions = Inr f"
  shows "\<exists>x. absname f = normpath x"
  using assms
  by (auto simp: row_file_def get_file_def get_file_plain_def abspath_def Let_def
           split: sum.splits prod.splits)

lemma copymove_targets_alt:
  "copymove_targets E fs path row substitutions =
     (case row_file E path row ''src'' substitutions of
        Inl e \<Rightarrow> Inl e
      | Inr src \<Rightarrow>
          (case row_file E path row ''dst'' substitutions of
             Inl e \<Rightarrow> Inl e
           | Inr dst \<Rightarrow>
               (case jget row ''match'' of
                  Some pat \<Rightarrow> select_matches E pat (absname dst) (glob_star E fs (absname src))
                | None \<Rightarrow> Inr [(src, dst)])))"
  by (simp add: copymove_targets_def row_file_def split: sum.splits)

lemma map_filter_back:
  assumes "\<forall>n \<in> set ns. b (j n) = n"
  shows "map b (filter (\<lambda>x. Q (b x)) (map j ns)) = filter Q ns"
  using assms by (induction ns) auto

lemma glob_star_plain:
  assumes "absname src = normpath x" and "\<not> has_magic (absname src)"
  shows "glob_star E fs (absname src) =
           map (join (absname src)) (filter (\<lambda>n. \<not> ishidden n) (os_listdir fs (absname src)))"
proof -
  have "fst (path_split (join (absname src) ''*'')) = absname src"
    using normpath_shape [of x] assms(1) by (intro glob_dir) simp_all
  then show ?thesis using assms(2) by (simp add: glob_star_def Let_def)
qed

lemma norm_comps_rooted_proper:
  assumes "\<forall>c \<in> set new. proper c" and "\<forall>c \<in> set parts. slash \<notin> set c"
  shows "\<forall>c \<in> set (norm_comps True new parts). proper c"
  using assms
proof (induction parts arbitrary: new)
  case Nil
  then show ?case by simp
next
  case (Cons part parts)
  have p: "\<forall>c \<in> set parts. slash \<notin> set c" using Cons.prems(2) by simp
  have b: "\<forall>c \<in> set (butlast new). proper c"
    using Cons.prems(1) by (auto dest: in_set_butlastD)
  have l: "new \<noteq> [] \<Longrightarrow> last new \<noteq> ''..''"
    using Cons.prems(1) last_in_set [of new] by (auto simp: proper_def)
  have a: "part \<noteq> [] \<Longrightarrow> part \<noteq> ''.'' \<Longrightarrow> part \<noteq> ''..'' \<Longrightarrow>
      \<forall>c \<in> set (new @ [part]). proper c"
    using Cons.prems by (auto simp: proper_def)
  show ?case
    using Cons.IH [OF Cons.prems(1) p] Cons.IH [OF b p] Cons.IH [OF a p] l
    by (auto simp del: set_append)
qed

lemma norm_comps_all_proper:
  assumes "\<forall>c \<in> set cs. proper c"
  shows "norm_comps rooted new cs = new @ cs"
  using assms
proof (induction cs arbitrary: new)
  case Nil
  then show ?case by simp
next
  case (Cons c cs)
  then have "proper c" by simp
  then have "norm_comps rooted new (c # cs) = norm_comps rooted (new @ [c]) cs"
    by (auto simp: proper_def)
  then show ?case using Cons by simp
qed

lemma norm_comps_skip_empty:
  "norm_comps rooted new (replicate k [] @ cs) = norm_comps rooted new cs"
  by (induction k) auto

lemma split_on_slashes:
  "split_on slash (replicate k slash @ s) = replicate k [] @ split_on slash s"
  by (induction k) auto

lemma split_on_sep_join:
  assumes "cs \<noteq> []" and "\<forall>c \<in> set cs. slash \<notin> set c"
  shows "split_on slash (sep_join ''/'' cs) = cs"
  using assms
proof (induction "''/''" cs rule: sep_join.induct)
  case 1
  then show ?case by simp
next
  case (2 x)
  then show ?case by (simp add: split_on_single)
next
  case (3 x y ys)
  have "split_on slash (x @ slash # sep_join ''/'' (y # ys)) =
      split_on slash x @ split_on slash (sep_join ''/'' (y # ys))"
    by (rule split_on_append)
  then show ?case using 3 by (simp add: split_on_single)
qed

lemma sep_join_hd:
  assumes "cs \<noteq> []" and "hd cs \<noteq> []"
  shows "\<exists>rest. sep_join sep cs = hd (hd cs) # rest"
  using assms
  by (induction sep cs rule: sep_join.induct) (auto simp: neq_Nil_conv)

lemma initial_slashes_abs: "startswith x ''/'' \<Longrightarrow> initial_slashes x = 1 \<or> initial_slashes x = 2"
  by (simp add: initial_slashes_def)

lemma normpath_canonical:
  assumes "startswith x ''/''"
  shows "canonical (normpath x)"
proof -
  let ?k = "initial_slashes x"
  let ?cs = "norm_comps (?k \<noteq> 0) [] (split_on slash x)"
  from assms have k: "?k = 1 \<or> ?k = 2" by (rule initial_slashes_abs)
  then have r: "(?k \<noteq> 0) = True" by auto
  have cs: "\<forall>c \<in> set ?cs. proper c"
    unfolding r by (rule norm_comps_rooted_proper) (auto dest: split_on_no_sep)
  from assms have ne: "(x = []) = False" by auto
  have pne: "(replicate ?k slash @ sep_join ''/'' ?cs = []) = False"
    using k by auto
  have "normpath x = replicate ?k slash @ sep_join ''/'' ?cs"
    by (simp only: normpath_def Let_def ne pne if_False)
  with k cs show ?thesis unfolding canonical_def by blast
qed

lemma initial_slashes_canonical:
  assumes "k = 1 \<or> k = 2" and "cs \<noteq> []" and "\<forall>c \<in> set cs. proper c"
  shows "initial_slashes (replicate k slash @ sep_join ''/'' cs) = k"
proof -
  from assms(2,3) have "hd cs \<noteq> [] \<and> slash \<notin> set (hd cs)"
    by (cases cs) (auto simp: proper_def)
  with sep_join_hd [OF assms(2), of "''/''"] obtain c rest where
    c: "sep_join ''/'' cs = c # rest" "c \<noteq> slash"
    by (metis hd_in_set)
  from assms(1) show ?thesis
    by (auto simp: initial_slashes_def c numeral_2_eq_2)
qed

lemma normpath_of_canonical:
  assumes "k = 1 \<or> k = 2" and "cs \<noteq> []" and "\<forall>c \<in> set cs. proper c"
  shows "normpath (replicate k slash @ sep_join ''/'' cs) = replicate k slash @ sep_join ''/'' cs"
proof -
  let ?q = "replicate k slash @ sep_join ''/'' cs"
  have i: "initial_slashes ?q = k" by (rule initial_slashes_canonical [OF assms])
  from assms(1) have r: "(k \<noteq> 0) = True" by auto
  have nosl: "\<forall>c \<in> set cs. slash \<notin> set c" using assms(3) by (simp add: proper_def)
  have s: "split_on slash ?q = replicate k [] @ cs"
    by (simp only: split_on_slashes split_on_sep_join [OF assms(2) nosl])
  have n: "norm_comps True [] (split_on slash ?q) = cs"
    by (simp only: s norm_comps_skip_empty norm_comps_all_proper [OF assms(3)] append_Nil)
  from assms(1) have ne: "(?q = []) = False" by auto
  show ?thesis
    by (simp only: normpath_def [of ?q] Let_def i r n ne if_False)
qed

lemma join_canonical:
  assumes "k = 1 \<or> k = 2" and "\<forall>c \<in> set cs. proper c" and "proper n"
  shows "join (replicate k slash @ sep_join ''/'' cs) n
           = replicate k slash @ sep_join ''/'' (cs @ [n])"
proof (cases "cs = []")
  case True
  from assms(3) have "\<not> startswith n ''/''" by (cases n) (auto simp: proper_def)
  moreover from assms(1) have "endswith (replicate k slash) ''/''"
    by (auto simp: endswith_slash)
  ultimately show ?thesis using True by (simp add: join_def)
next
  case False
  from assms(3) have n: "\<not> startswith n ''/''" by (cases n) (auto simp: proper_def)
  from False assms(2) have l: "last cs \<noteq> [] \<and> slash \<notin> set (last cs)"
    using last_in_set [of cs] by (auto simp: proper_def)
  with sep_join_last [OF False, of "''/''"]
  have j0: "sep_join ''/'' cs \<noteq> []" "last (sep_join ''/'' cs) = last (last cs)" by auto
  have "last (last cs) \<noteq> slash" using l last_in_set by metis
  with j0 have j: "sep_join ''/'' cs \<noteq> []" "last (sep_join ''/'' cs) \<noteq> slash" by auto
  then have e: "\<not> endswith (replicate k slash @ sep_join ''/'' cs) ''/''"
    by (simp add: endswith_slash)
  from assms(1) have ne: "replicate k slash @ sep_join ''/'' cs \<noteq> []" by auto
  show ?thesis using n e ne False by (simp add: join_def sep_join_snoc)
qed

lemma normpath_child:
  assumes "canonical p" and "proper n"
  shows "normpath (join p n) = join p n" and "startswith (join p n) ''/''"
proof -
  from assms(1) obtain k cs where
    k: "k = 1 \<or> k = 2" and cs: "\<forall>c \<in> set cs. proper c"
    and p: "p = replicate k slash @ sep_join ''/'' cs"
    unfolding canonical_def by blast
  have j: "join p n = replicate k slash @ sep_join ''/'' (cs @ [n])"
    unfolding p by (rule join_canonical [OF k cs assms(2)])
  have a: "\<forall>c \<in> set (cs @ [n]). proper c" using cs assms(2) by simp
  show "normpath (join p n) = join p n"
    unfolding j by (rule normpath_of_canonical [OF k _ a]) simp
  from k show "startswith (join p n) ''/''"
    unfolding j by (auto simp: numeral_2_eq_2)
qed

lemma canonical_shape:
  assumes "canonical p"
  shows "p \<noteq> [] \<and> (last p = slash \<longrightarrow> set p \<subseteq> {slash})"
proof -
  from assms obtain k cs where
    k: "k = 1 \<or> k = 2" and cs: "\<forall>c \<in> set cs. proper c"
    and p: "p = replicate k slash @ sep_join ''/'' cs"
    unfolding canonical_def by blast
  show ?thesis
  proof (cases "cs = []")
    case True
    with k p show ?thesis by auto
  next
    case False
    from False cs have l: "last cs \<noteq> [] \<and> slash \<notin> set (last cs)"
      using last_in_set [of cs] by (auto simp: proper_def)
    with sep_join_last [OF False, of "''/''"]
    have "sep_join ''/'' cs \<noteq> []" "last (sep_join ''/'' cs) = last (last cs)" by auto
    moreover have "last (last cs) \<noteq> slash" using l last_in_set by metis
    ultimately show ?thesis using k p by auto
  qed
qed

lemma split_join:
  assumes "p \<noteq> []" and "last p = slash \<longrightarrow> set p \<subseteq> {slash}"
      and "n \<noteq> []" and "slash \<notin> set n"
  shows "path_split (join p n) = (p, n)"
proof -
  from assms(3,4) have ns: "\<not> startswith n ''/''" by (cases n) auto
  have tw: "takeWhile (\<lambda>c. c \<noteq> slash) (rev n @ slash # r) = rev n" for r
    using assms(4) by (auto simp: takeWhile_tail)
  have dw: "dropWhile (\<lambda>c. c \<noteq> slash) (rev n @ slash # r) = slash # r" for r
    using assms(4) by (auto simp: dropWhile_append3)
  show ?thesis
  proof (cases "last p = slash")
    case True
    with assms have a: "replicate (length p) slash = p" by (simp add: all_slashes [symmetric])
    from True assms(1) obtain p' where p': "p = p' @ [slash]"
      by (metis append_butlast_last_id)
    from True assms(1) ns have j: "join p n = p @ n"
      by (simp add: join_def endswith_slash)
    have h: "rev (dropWhile (\<lambda>c. c \<noteq> slash) (rev (p @ n))) = p"
      by (simp add: p' dw)
    have t: "rev (takeWhile (\<lambda>c. c \<noteq> slash) (rev (p @ n))) = n"
      by (simp add: p' tw)
    show ?thesis
      by (simp only: j path_split_def Let_def h t a) simp
  next
    case False
    with assms(1) ns have j: "join p n = p @ ''/'' @ n"
      by (simp add: join_def endswith_slash)
    from False assms(1) have d: "rev (dropWhile (\<lambda>c. c = slash) (rev (p @ ''/''))) = p"
      by (cases p rule: rev_cases) auto
    have nsl: "p @ ''/'' \<noteq> replicate (length (p @ ''/'')) slash"
    proof
      assume "p @ ''/'' = replicate (length (p @ ''/'')) slash"
      then have "set (p @ ''/'') \<subseteq> {slash}"
        by (metis set_replicate_conv_if subset_insertI2 subset_refl empty_subsetI)
      then have "last p = slash" using assms(1) by (cases p rule: rev_cases) auto
      with False show False by simp
    qed
    have h: "rev (dropWhile (\<lambda>c. c \<noteq> slash) (rev (p @ ''/'' @ n))) = p @ ''/''"
      by (simp add: dw)
    have t: "rev (takeWhile (\<lambda>c. c \<noteq> slash) (rev (p @ ''/'' @ n))) = n"
      by (simp add: tw)
    show ?thesis
      using nsl by (simp only: j path_split_def Let_def h t d) simp
  qed
qed

text \<open>The extension \<^verbatim>\<open>get_file\<close> gives a name: what follows its first dot.\<close>

lemma get_file_child:
  assumes "canonical p" and "proper n"
  shows "get_file_plain wd (join p n) None =
           \<lparr>absname = join p n, dirname = p, basename = n,
            ext = (if CHR ''.'' \<in> set n then drop 1 (dropWhile (\<lambda>c. c \<noteq> CHR ''.'') n) else [])\<rparr>"
proof -
  have a: "abspath wd (join p n) = join p n"
    using normpath_child [OF assms] by (simp add: abspath_def isabs_def)
  have s: "path_split (join p n) = (p, n)"
    using canonical_shape [OF assms(1)] assms(2) by (intro split_join) (simp_all add: proper_def)
  show ?thesis by (simp add: get_file_plain_def a s Let_def)
qed

lemma join_abs:
  assumes "startswith wd ''/''"
  shows "startswith (if isabs name then name else join wd name) ''/''"
  using assms by (cases wd) (auto simp: isabs_def join_def)

lemma get_file_plain_canonical:
  assumes "startswith wd ''/''"
  shows "canonical (absname (get_file_plain wd name path))"
proof -
  let ?n = "case path of None \<Rightarrow> name | Some p \<Rightarrow> join p name"
  have "absname (get_file_plain wd name path) = normpath (if isabs ?n then ?n else join wd ?n)"
    by (cases "path_split (abspath wd ?n)") (simp add: get_file_plain_def Let_def abspath_def)
  then show ?thesis using normpath_canonical [OF join_abs [OF assms, of ?n]] by simp
qed

lemma row_file_canonical:
  assumes "isabs (getcwd E)" and "row_file E path row k substitutions = Inr f"
  shows "canonical (absname f)"
  using assms get_file_plain_canonical [of "getcwd E"]
  by (auto simp: row_file_def get_file_def isabs_def split: sum.splits)

text \<open>
  C2, as amended (the files a pattern selects).  For a \<^verbatim>\<open>copy\<close> or \<^verbatim>\<open>move\<close> row whose
  \<^verbatim>\<open>src\<close> and \<^verbatim>\<open>dst\<close> resolve, whose \<^verbatim>\<open>match\<close> is a pattern that compiles, and whose
  source directory has no wildcard character in its path, the current directory being
  absolute: the files the action applies to are, in directory order, exactly the
  immediate children of the source directory whose base name does not begin with a dot
  and is matched by the pattern from its first character on (\<^verbatim>\<open>re.match\<close>); each is the
  file of its name in the source directory and goes to the file of the same name in the
  destination directory; and \<^verbatim>\<open>copymove\<close> runs \<^verbatim>\<open>copymove_single\<close> on these files in turn.
\<close>

theorem match_selects_children:
  assumes "isabs (getcwd E)"
      and "row_file E path row ''src'' substitutions = Inr src"
      and "row_file E path row ''dst'' substitutions = Inr dst"
      and "jget row ''match'' = Some (JStr p)"
      and "re_compile E p = Some r"
      and "\<not> has_magic (absname src)"
  shows "\<exists>targets.
           copymove_targets E fs path row substitutions = Inr targets
           \<and> map (\<lambda>(s, d). basename s) targets =
               filter (\<lambda>n. \<not> ishidden n \<and> re_match r n) (os_listdir fs (absname src))
           \<and> (\<forall>(s, d) \<in> set targets.
                 absname s = join (absname src) (basename s) \<and> dirname s = absname src
                 \<and> absname d = join (absname dst) (basename s) \<and> dirname d = absname dst
                 \<and> basename d = basename s)
           \<and> copymove E fs repo_link commit path row substitutions =
               copymove_each E fs repo_link commit path row (row_action row = ''move'') targets"
proof -
  let ?gfp = "\<lambda>name. get_file_plain (getcwd E) name None"
  let ?F = "\<lambda>name. (?gfp name, ?gfp (join (absname dst) (basename (?gfp name))))"
  let ?ns = "filter (\<lambda>n. \<not> ishidden n) (os_listdir fs (absname src))"
  let ?names = "map (join (absname src)) ?ns"
  let ?G = "\<lambda>name. re_match r (basename (?gfp name))"
  let ?targets = "map ?F (filter ?G ?names)"
  have cs: "canonical (absname src)" by (rule row_file_canonical [OF assms(1,2)])
  have cd: "canonical (absname dst)" by (rule row_file_canonical [OF assms(1,3)])
  from row_file_normal [OF assms(2)] obtain x where x: "absname src = normpath x" by blast
  have g: "glob_star E fs (absname src) = ?names"
    by (rule glob_star_plain [OF x assms(6)])
  have t: "copymove_targets E fs path row substitutions = Inr ?targets"
    by (simp add: copymove_targets_alt assms(2,3,4) g select_matches_ok [OF assms(5)])
  have proper: "\<forall>n \<in> set ?ns. proper n"
    using os_listdir_shape shown_proper by auto
  have pr: "\<forall>n \<in> set ?ns. basename (?gfp (join (absname src) n)) = n"
    using proper basename_join by auto
  have "map (\<lambda>(s, d). basename s) ?targets = map (\<lambda>name. basename (?gfp name)) (filter ?G ?names)"
    by (simp add: comp_def)
  also have "\<dots> = filter (re_match r) ?ns"
    using pr
    by (rule map_filter_back [where b = "\<lambda>name. basename (?gfp name)"
          and j = "join (absname src)" and Q = "re_match r"])
  also have "\<dots> = filter (\<lambda>n. \<not> ishidden n \<and> re_match r n) (os_listdir fs (absname src))"
    by simp
  finally have b: "map (\<lambda>(s, d). basename s) ?targets =
      filter (\<lambda>n. \<not> ishidden n \<and> re_match r n) (os_listdir fs (absname src))" .
  have m: "\<forall>(s, d) \<in> set ?targets.
             absname s = join (absname src) (basename s) \<and> dirname s = absname src
             \<and> absname d = join (absname dst) (basename s) \<and> dirname d = absname dst
             \<and> basename d = basename s"
  proof (clarify)
    fix s d
    assume "(s, d) \<in> set ?targets"
    then obtain n where n: "n \<in> set ?ns" "s = ?gfp (join (absname src) n)"
      "d = ?gfp (join (absname dst) (basename s))"
      by auto
    from proper n(1) have pn: "proper n" by blast
    note s = get_file_child [OF cs pn, of "getcwd E"]
    have bs: "basename s = n" by (simp add: n(2) s)
    note d = get_file_child [OF cd pn, of "getcwd E"]
    show "absname s = join (absname src) (basename s) \<and> dirname s = absname src
             \<and> absname d = join (absname dst) (basename s) \<and> dirname d = absname dst
             \<and> basename d = basename s"
      by (simp add: n(3) bs d) (simp add: n(2) s)
  qed
  have c: "copymove E fs repo_link commit path row substitutions =
             copymove_each E fs repo_link commit path row (row_action row = ''move'') ?targets"
    by (simp add: copymove_def t)
  from t b m c show ?thesis by blast
qed

subsection \<open>The directory of three files\<close>

lemma js_listdir:
  "os_listdir js_fs ''/srv/github_deploy_repo__tmp/js'' = [''a.js'', ''b.js'', ''c.txt'']"
  by (simp add: js_fs_def fs0_def os_listdir_def child_name_def endswith_def follow_numeral Let_def)

lemma hidden_listdir:
  "os_listdir hidden_fs ''/srv/github_deploy_repo__tmp/js'' =
     [''a.js'', ''b.js'', ''c.txt'', ''.htaccess'']"
  by (simp add: hidden_fs_def js_fs_def fs0_def os_listdir_def child_name_def endswith_def
        follow_numeral Let_def)

lemma js_dir0:
  "fst (path_split (join ''/srv/github_deploy_repo__tmp/js'' ''*'')) =
     ''/srv/github_deploy_repo__tmp/js''"
  by (simp add: path_split_def join_def endswith_def Let_def)

lemma js_glob:
  "glob_star E js_fs ''/srv/github_deploy_repo__tmp/js'' =
     [''/srv/github_deploy_repo__tmp/js/a.js'', ''/srv/github_deploy_repo__tmp/js/b.js'',
      ''/srv/github_deploy_repo__tmp/js/c.txt'']"
  by (simp add: glob_star_def js_dir0 js_listdir has_magic_def ishidden_def Let_def)
     (simp add: join_def endswith_def)

lemma hidden_glob:
  "glob_star E hidden_fs ''/srv/github_deploy_repo__tmp/js'' =
     [''/srv/github_deploy_repo__tmp/js/a.js'', ''/srv/github_deploy_repo__tmp/js/b.js'',
      ''/srv/github_deploy_repo__tmp/js/c.txt'']"
  by (simp add: glob_star_def js_dir0 hidden_listdir has_magic_def ishidden_def Let_def)
     (simp add: join_def endswith_def)

lemma match_suffix:
  "\<not> re_match js_suffix ''a.js''" "\<not> re_match js_suffix ''b.js''"
  "\<not> re_match js_suffix ''c.txt''"
  by (simp_all add: re_match_def js_suffix_def)

lemma match_any_suffix:
  "re_match (Cat (Star Dot) js_suffix) ''a.js''" "re_match (Cat (Star Dot) js_suffix) ''b.js''"
  "\<not> re_match (Cat (Star Dot) js_suffix) ''c.txt''"
  by (simp_all add: re_match_def js_suffix_def Let_def)

lemma match_any:
  "re_match (Star Dot) ''a.js''" "re_match (Star Dot) ''.htaccess''"
  by (simp_all add: re_match_def Let_def)

lemma match_cwd: "getcwd match_env = ''/srv''"
  by (simp add: match_env_def env0_def)

lemma js_src:
  "row_file match_env tmpdir (copy_row p) ''src'' (JObj []) =
     Inr \<lparr>absname = ''/srv/github_deploy_repo__tmp/js'',
          dirname = ''/srv/github_deploy_repo__tmp'', basename = ''js'', ext = []\<rparr>"
  by (simp add: row_file_def row_str_def jget_def copy_row_def match_cwd get_file_default
        tmpdir_def path_defs Let_def)

lemma js_dst:
  "row_file match_env tmpdir (copy_row p) ''dst'' (JObj []) =
     Inr \<lparr>absname = ''/srv/www/js'', dirname = ''/srv/www'', basename = ''js'', ext = []\<rparr>"
  by (simp add: row_file_def row_str_def jget_def copy_row_def match_cwd get_file_default
        tmpdir_def path_defs Let_def)

lemma js_match: "jget (copy_row p) ''match'' = Some (JStr p)"
  by (simp add: jget_def copy_row_def)

lemma js_sources:
  "get_file_plain ''/srv'' ''/srv/github_deploy_repo__tmp/js/a.js'' None = src_file ''a.js'' ''js''"
  "get_file_plain ''/srv'' ''/srv/github_deploy_repo__tmp/js/b.js'' None = src_file ''b.js'' ''js''"
  "get_file_plain ''/srv'' ''/srv/github_deploy_repo__tmp/js/c.txt'' None = src_file ''c.txt'' ''txt''"
  by (simp_all add: src_file_def path_defs Let_def)

lemma js_destinations:
  "get_file_plain ''/srv'' (join ''/srv/www/js'' ''a.js'') None = dst_file ''a.js'' ''js''"
  "get_file_plain ''/srv'' (join ''/srv/www/js'' ''b.js'') None = dst_file ''b.js'' ''js''"
  "get_file_plain ''/srv'' (join ''/srv/www/js'' ''c.txt'') None = dst_file ''c.txt'' ''txt''"
  by (simp_all add: dst_file_def path_defs Let_def)

lemma src_file_basename: "basename (src_file n e) = n"
  by (simp add: src_file_def)

lemma js_targets:
  assumes "re_compile match_env p = Some r"
      and "glob_star match_env fs ''/srv/github_deploy_repo__tmp/js'' =
             [''/srv/github_deploy_repo__tmp/js/a.js'', ''/srv/github_deploy_repo__tmp/js/b.js'',
              ''/srv/github_deploy_repo__tmp/js/c.txt'']"
  shows "copymove_targets match_env fs tmpdir (copy_row p) (JObj []) =
           Inr ((if re_match r ''a.js''
                 then [(src_file ''a.js'' ''js'', dst_file ''a.js'' ''js'')] else [])
                @ (if re_match r ''b.js''
                   then [(src_file ''b.js'' ''js'', dst_file ''b.js'' ''js'')] else [])
                @ (if re_match r ''c.txt''
                   then [(src_file ''c.txt'' ''txt'', dst_file ''c.txt'' ''txt'')] else []))"
  by (simp add: copymove_targets_alt js_src js_dst js_match assms select_matches_ok match_cwd
        js_sources js_destinations src_file_basename)

lemma compile_suffix: "re_compile match_env ([backslash] @ ''.js$'') = Some js_suffix"
  by (simp add: match_env_def env0_def)

lemma compile_any_suffix:
  "re_compile match_env (''.*'' @ [backslash] @ ''.js$'') = Some (Cat (Star Dot) js_suffix)"
  by (simp add: match_env_def env0_def)

lemma compile_any: "re_compile match_env ''.*'' = Some (Star Dot)"
  by (simp add: match_env_def env0_def)

lemma row_move: "row_action (copy_row p) = ''copy''"
  by (simp add: row_action_def jget_def copy_row_def lower_def lower_char_def)

text \<open>
  The claim as stated fails: with \<^verbatim>\<open>match\<close> the pattern \<^verbatim>\<open>\.js$\<close> on the directory of \<^verbatim>\<open>a.js\<close>,
  \<^verbatim>\<open>b.js\<close> and \<^verbatim>\<open>c.txt\<close>, the \<^verbatim>\<open>copy\<close> action returns with the filesystem as it was:
  \<^verbatim>\<open>re.match\<close> tries the pattern at the first character of \<^verbatim>\<open>a.js\<close>, which is not a dot, and
  neither \<^verbatim>\<open>a.js\<close> nor \<^verbatim>\<open>b.js\<close> is copied.
\<close>

theorem suffix_pattern_copies_nothing:
  "copymove match_env js_fs ''https://github.com/acme/site'' (Some ''c0ffee'') tmpdir
       (copy_row ([backslash] @ ''.js$'')) (JObj []) = (js_fs, Inr ())
   \<and> map_of js_fs ''/srv/www/js/a.js'' = None
   \<and> map_of js_fs ''/srv/www/js/b.js'' = None"
proof -
  have t: "copymove_targets match_env js_fs tmpdir (copy_row ([backslash] @ ''.js$'')) (JObj [])
      = Inr []"
    using js_targets [OF compile_suffix js_glob] by (simp add: match_suffix)
  have "copymove match_env js_fs ''https://github.com/acme/site'' (Some ''c0ffee'') tmpdir
       (copy_row ([backslash] @ ''.js$'')) (JObj []) = (js_fs, Inr ())"
    by (simp only: copymove_def t) simp
  moreover have "map_of js_fs ''/srv/www/js/a.js'' = None \<and> map_of js_fs ''/srv/www/js/b.js'' = None"
    by (simp add: js_fs_def fs0_def)
  ultimately show ?thesis by simp
qed

lemmas copy_defs = copymove_single_def on_ok_def check_file_def match_cwd jget_def copy_row_def
  apply_keywords_def place_file_def fs_step_def os_makedirs_def makedirs_upto_numeral
  shutil_copy_def src_file_def dst_file_def js_fs_def fs0_def tmpdir_def

lemma copy_a:
  "copymove_single match_env js_fs repo_link commit tmpdir (copy_row p)
       (src_file ''a.js'' ''js'') (dst_file ''a.js'' ''js'') False =
     (js_fs @ [(''/srv/www/js'', Dir), (''/srv/www/js/a.js'', File ''A'')], Inr ())"
  by (simp add: copy_defs path_defs fs_defs Let_def)

lemma copy_b:
  "copymove_single match_env
       (js_fs @ [(''/srv/www/js'', Dir), (''/srv/www/js/a.js'', File ''A'')])
       repo_link commit tmpdir (copy_row p)
       (src_file ''b.js'' ''js'') (dst_file ''b.js'' ''js'') False =
     (js_fs @ [(''/srv/www/js'', Dir), (''/srv/www/js/a.js'', File ''A''),
               (''/srv/www/js/b.js'', File ''B'')], Inr ())"
  by (simp add: copy_defs path_defs fs_defs Let_def)


lemma js_no_magic: "\<not> has_magic ''/srv/github_deploy_repo__tmp/js''"
  by (simp add: has_magic_def)

theorem match_selects_children_witness:
  "(\<exists>targets.
      copymove_targets match_env js_fs tmpdir (copy_row (''.*'' @ [backslash] @ ''.js$''))
        (JObj []) = Inr targets
      \<and> map (\<lambda>(s, d). basename s) targets = [''a.js'', ''b.js''])
   \<and> copymove match_env js_fs ''https://github.com/acme/site'' (Some ''c0ffee'') tmpdir
       (copy_row (''.*'' @ [backslash] @ ''.js$'')) (JObj []) =
     (js_fs @ [(''/srv/www/js'', Dir), (''/srv/www/js/a.js'', File ''A''),
               (''/srv/www/js/b.js'', File ''B'')], Inr ())"
proof -
  let ?p = "''.*'' @ [backslash] @ ''.js$''"
  let ?src = "\<lparr>absname = ''/srv/github_deploy_repo__tmp/js'',
          dirname = ''/srv/github_deploy_repo__tmp'', basename = ''js'', ext = []\<rparr>"
  have m: "\<not> has_magic (absname ?src)" by (simp add: js_no_magic)
  have ia: "isabs (getcwd match_env)" by (simp add: match_cwd isabs_def)
  have f: "filter (\<lambda>n. \<not> ishidden n \<and> re_match (Cat (Star Dot) js_suffix) n)
             (os_listdir js_fs (absname ?src)) = [''a.js'', ''b.js'']"
    by (simp add: js_listdir match_any_suffix ishidden_def)
  from match_selects_children [OF ia js_src js_dst js_match compile_any_suffix m,
      of js_fs "''https://github.com/acme/site''" "Some ''c0ffee''"]
  obtain targets where
    t: "copymove_targets match_env js_fs tmpdir (copy_row ?p) (JObj []) = Inr targets"
    and b: "map (\<lambda>(s, d). basename s) targets =
        filter (\<lambda>n. \<not> ishidden n \<and> re_match (Cat (Star Dot) js_suffix) n)
          (os_listdir js_fs (absname ?src))"
    by blast
  from t b f have 1: "\<exists>targets.
      copymove_targets match_env js_fs tmpdir (copy_row ?p) (JObj []) = Inr targets
      \<and> map (\<lambda>(s, d). basename s) targets = [''a.js'', ''b.js'']"
    by (intro exI [of _ targets]) simp
  have t2: "copymove_targets match_env js_fs tmpdir (copy_row ?p) (JObj []) =
      Inr [(src_file ''a.js'' ''js'', dst_file ''a.js'' ''js''),
           (src_file ''b.js'' ''js'', dst_file ''b.js'' ''js'')]"
    using js_targets [OF compile_any_suffix js_glob] by (simp add: match_any_suffix)
  have 2: "copymove match_env js_fs ''https://github.com/acme/site'' (Some ''c0ffee'') tmpdir
       (copy_row ?p) (JObj []) =
     (js_fs @ [(''/srv/www/js'', Dir), (''/srv/www/js/a.js'', File ''A''),
               (''/srv/www/js/b.js'', File ''B'')], Inr ())"
    by (simp only: copymove_def t2 row_move) (simp add: copy_a copy_b on_ok_def)
  from 1 2 show ?thesis by (rule conjI)
qed

theorem hidden_files_never_selected_witness:
  "''.htaccess'' \<in> set (os_listdir hidden_fs ''/srv/github_deploy_repo__tmp/js'')
   \<and> re_match (Star Dot) ''.htaccess''
   \<and> copymove_targets match_env hidden_fs tmpdir (copy_row ''.*'') (JObj []) =
       Inr [(src_file ''a.js'' ''js'', dst_file ''a.js'' ''js''),
            (src_file ''b.js'' ''js'', dst_file ''b.js'' ''js''),
            (src_file ''c.txt'' ''txt'', dst_file ''c.txt'' ''txt'')]
   \<and> \<not> ishidden (basename (src_file ''a.js'' ''js''))
   \<and> basename (dst_file ''a.js'' ''js'') = basename (src_file ''a.js'' ''js'')"
proof -
  have any_c: "re_match (Star Dot) ''c.txt''" "re_match (Star Dot) ''b.js''"
    by (simp_all add: re_match_def Let_def)
  have t: "copymove_targets match_env hidden_fs tmpdir (copy_row ''.*'') (JObj []) =
       Inr [(src_file ''a.js'' ''js'', dst_file ''a.js'' ''js''),
            (src_file ''b.js'' ''js'', dst_file ''b.js'' ''js''),
            (src_file ''c.txt'' ''txt'', dst_file ''c.txt'' ''txt'')]"
    using js_targets [OF compile_any hidden_glob] by (simp add: match_any any_c)
  have "(src_file ''a.js'' ''js'', dst_file ''a.js'' ''js'') \<in>
      set [(src_file ''a.js'' ''js'', dst_file ''a.js'' ''js''),
            (src_file ''b.js'' ''js'', dst_file ''b.js'' ''js''),
            (src_file ''c.txt'' ''txt'', dst_file ''c.txt'' ''txt'')]"
    by simp
  from hidden_files_never_selected [OF js_match t, THEN bspec, OF this]
  have h: "\<not> ishidden (basename (src_file ''a.js'' ''js''))
     \<and> basename (dst_file ''a.js'' ''js'') = basename (src_file ''a.js'' ''js'')"
    by blast
  have l: "''.htaccess'' \<in> set (os_listdir hidden_fs ''/srv/github_deploy_repo__tmp/js'')"
    by (simp add: hidden_listdir)
  from l match_any(2) t h show ?thesis by (intro conjI) simp_all
qed

end
